theory Spec2Isabelle
  imports Complex_Main "HOL-Library.Multiset"
begin

section \<open>JavaScript numbers\<close>

text \<open>
  The store computes with JavaScript numbers, the binary64 numbers of IEEE 754: \<open>NaN\<close>,
  the two infinities and the finite numbers, which are held as reals. Every arithmetic
  operation on finite numbers rounds its exact result to the nearest binary64 number,
  ties to even (\<open>round_double\<close>): a result of magnitude \<open>2 ^ 1024\<close> or more after
  rounding is an infinity, and a result too small for the subnormal numbers is 0. The
  sign of zero is not modelled (zero stands for \<open>+0\<close>).
\<close>

datatype number = NaN | NegInf | Fin real | PosInf

text \<open>The nearest integer, ties to the even one.\<close>

definition round_even :: "real \<Rightarrow> int" where
  "round_even x =
     (let f = \<lfloor>x\<rfloor>
      in if x - of_int f < 1 / 2 then f
         else if x - of_int f > 1 / 2 then f + 1
         else if even f then f else f + 1)"

text \<open>
  Rounding to binary64. The exponent \<open>e\<close> of \<open>x\<close> is not below that of the subnormal
  numbers, -1022; the numbers of that exponent are the multiples of \<open>2 ^ (e - 52)\<close>.
\<close>

definition round_double :: "real \<Rightarrow> number" where
  "round_double x =
     (if x = 0 then Fin 0
      else
        let e = max \<lfloor>log 2 \<bar>x\<bar>\<rfloor> (- 1022);
            q = power_int 2 (e - 52);
            y = of_int (round_even (x / q)) * q
        in if \<bar>y\<bar> \<ge> 2 ^ 1024 then (if x < 0 then NegInf else PosInf) else Fin y)"

text \<open>
  Every finite binary64 number is a multiple of the least subnormal number,
  \<open>2 ^ -1074\<close>.
\<close>

definition min_subnormal :: real where
  "min_subnormal = power_int 2 (- 1074)"

definition on_grid :: "real \<Rightarrow> bool" where
  "on_grid y = (\<exists>n::int. y = of_int n * min_subnormal)"

definition is_double :: "number \<Rightarrow> bool" where
  "is_double a = (case a of Fin y \<Rightarrow> on_grid y | _ \<Rightarrow> True)"

fun num_neg :: "number \<Rightarrow> number" where
  "num_neg NaN = NaN"
| "num_neg NegInf = PosInf"
| "num_neg PosInf = NegInf"
| "num_neg (Fin a) = Fin (- a)"

fun num_add :: "number \<Rightarrow> number \<Rightarrow> number" where
  "num_add NaN b = NaN"
| "num_add a NaN = NaN"
| "num_add PosInf NegInf = NaN"
| "num_add NegInf PosInf = NaN"
| "num_add PosInf b = PosInf"
| "num_add NegInf b = NegInf"
| "num_add a PosInf = PosInf"
| "num_add a NegInf = NegInf"
| "num_add (Fin a) (Fin b) = round_double (a + b)"

definition num_sub :: "number \<Rightarrow> number \<Rightarrow> number" where
  "num_sub a b = num_add a (num_neg b)"

text \<open>The sign of a number that is not \<open>NaN\<close>: -1, 0 or 1.\<close>

fun num_sgn :: "number \<Rightarrow> int" where
  "num_sgn NaN = 0"
| "num_sgn NegInf = - 1"
| "num_sgn PosInf = 1"
| "num_sgn (Fin a) = (if a < 0 then - 1 else if a = 0 then 0 else 1)"

definition inf_of_sgn :: "int \<Rightarrow> number" where
  "inf_of_sgn s = (if s = 0 then NaN else if s < 0 then NegInf else PosInf)"

fun num_mul :: "number \<Rightarrow> number \<Rightarrow> number" where
  "num_mul NaN b = NaN"
| "num_mul a NaN = NaN"
| "num_mul (Fin a) (Fin b) = round_double (a * b)"
| "num_mul a b = inf_of_sgn (num_sgn a * num_sgn b)"

fun num_div :: "number \<Rightarrow> number \<Rightarrow> number" where
  "num_div NaN b = NaN"
| "num_div a NaN = NaN"
| "num_div (Fin a) (Fin b) =
     (if b = 0 then inf_of_sgn (num_sgn (Fin a)) else round_double (a / b))"
| "num_div (Fin a) b = Fin 0"
| "num_div a (Fin b) = (if b < 0 then num_neg a else a)"
| "num_div a b = NaN"

fun num_sqrt :: "number \<Rightarrow> number" where
  "num_sqrt NaN = NaN"
| "num_sqrt NegInf = NaN"
| "num_sqrt PosInf = PosInf"
| "num_sqrt (Fin a) = (if a < 0 then NaN else round_double (sqrt a))"

text \<open>\<open>a > b\<close> and \<open>a >= b\<close> of JavaScript: false as soon as one side is \<open>NaN\<close>.\<close>

fun num_gt :: "number \<Rightarrow> number \<Rightarrow> bool" where
  "num_gt NaN b = False"
| "num_gt a NaN = False"
| "num_gt PosInf b = (b \<noteq> PosInf)"
| "num_gt NegInf b = False"
| "num_gt (Fin a) PosInf = False"
| "num_gt (Fin a) NegInf = True"
| "num_gt (Fin a) (Fin b) = (a > b)"

definition num_ge :: "number \<Rightarrow> number \<Rightarrow> bool" where
  "num_ge a b = (a \<noteq> NaN \<and> b \<noteq> NaN \<and> (a = b \<or> num_gt a b))"

section \<open>Arrays\<close>

text \<open>
  \<open>Array.prototype.sort(comparefn)\<close>. The language definition asks for a stable sort
  and reads a comparator result that is \<open>NaN\<close> as \<open>+0\<close>, so all that the sort sees of
  the comparator is whether \<open>comparefn(a, b) > 0\<close>: the argument \<open>gt\<close>. The model is
  the stable insertion sort; for a consistent comparator every conforming
  implementation returns this list, for an inconsistent one the language leaves the
  order to the implementation.
\<close>

fun array_insert :: "('a \<Rightarrow> 'a \<Rightarrow> bool) \<Rightarrow> 'a \<Rightarrow> 'a list \<Rightarrow> 'a list" where
  "array_insert gt x [] = [x]"
| "array_insert gt x (y # ys) =
     (if gt x y then y # array_insert gt x ys else x # y # ys)"

definition array_sort :: "('a \<Rightarrow> 'a \<Rightarrow> bool) \<Rightarrow> 'a list \<Rightarrow> 'a list" where
  "array_sort gt xs = foldr (array_insert gt) xs []"

text \<open>\<open>xs.slice(0, k)\<close>: a negative \<open>k\<close> counts from the end.\<close>

definition slice0 :: "int \<Rightarrow> 'a list \<Rightarrow> 'a list" where
  "slice0 k xs =
     (if k < 0 then take (nat (int (length xs) + k)) xs else take (nat k) xs)"

text \<open>\<open>xs[i]\<close> as an operand of \<open>*\<close>: \<open>undefined\<close> past the end, which \<open>*\<close> reads as \<open>NaN\<close>.\<close>

definition index_num :: "number list \<Rightarrow> nat \<Rightarrow> number" where
  "index_num xs i = (if i < length xs then xs ! i else NaN)"

text \<open>
  \<open>s.trim()\<close>. A character is a code unit below 256; the white space and line
  terminators of JavaScript among these are the tab, the line feed, the vertical tab,
  the form feed, the carriage return, the space and the no-break space.
\<close>

definition is_space :: "char \<Rightarrow> bool" where
  "is_space c = (of_char c \<in> {9, 10, 11, 12, 13, 32, 160 :: nat})"

definition trim :: "string \<Rightarrow> string" where
  "trim s = rev (dropWhile is_space (rev (dropWhile is_space s)))"

section \<open>Documents\<close>

text \<open>
  \<open>IVSDocument<T>\<close>: \<open>hits\<close>, \<open>vector\<close> and \<open>vectorMag\<close> are optional fields (the code
  reads them with \<open>??\<close> and \<open>!\<close>, and deletes the last two from search results);
  \<open>None\<close> is \<open>undefined\<close>. The field \<open>text\<close> is \<open>doc_text\<close> here.
\<close>

record 'm IVSDocument =
  hits :: "nat option"
  metadata :: 'm
  doc_text :: string
  timestamp :: int
  vector :: "number list option"
  vectorMag :: "number option"

record 'm IVSSimilaritySearchItem = "'m IVSDocument" +
  score :: number

datatype error = Error string | TypeError

text \<open>\<open>doc.hits ?? 0\<close>\<close>

definition hits0 :: "('m, 'z) IVSDocument_scheme \<Rightarrow> nat" where
  "hits0 doc = (case hits doc of None \<Rightarrow> 0 | Some h \<Rightarrow> h)"

section \<open>Similarity engine\<close>

definition sum_squares :: "number list \<Rightarrow> number" where
  "sum_squares v = foldl (\<lambda>sum val. num_add sum (num_mul val val)) (Fin 0) v"

text \<open>\<open>calcVectorMagnitude\<close>: \<open>doc.vector!.reduce\<close> throws when the vector is undefined.\<close>

definition calcVectorMagnitude :: "('m, 'z) IVSDocument_scheme \<Rightarrow> error + number" where
  "calcVectorMagnitude doc =
     (case vector doc of
        None \<Rightarrow> Inl TypeError
      | Some v \<Rightarrow> Inr (num_sqrt (sum_squares v)))"

definition calculateMagnitude :: "number list \<Rightarrow> number" where
  "calculateMagnitude embedding = num_sqrt (sum_squares embedding)"

definition getCosineSimilarityScore :: "number \<Rightarrow> number \<Rightarrow> number \<Rightarrow> number" where
  "getCosineSimilarityScore dotProduct magnitudeA magnitudeB =
     num_div dotProduct (num_mul magnitudeA magnitudeB)"

definition normalizeScore :: "number \<Rightarrow> number" where
  "normalizeScore sc = num_div (num_add sc (Fin 1)) (Fin 2)"

text \<open>
  The reduce of \<open>calculateSimilarityScores\<close>: it runs over the indices of the
  document's vector and reads the query vector at each of them.
\<close>

definition dotProduct :: "number list \<Rightarrow> number list \<Rightarrow> number" where
  "dotProduct v queryVector =
     foldl (\<lambda>sum (val, i). num_add sum (num_mul val (index_num queryVector i)))
       (Fin 0) (zip v [0..<length v])"

text \<open>\<open>doc.vectorMag!\<close> as an operand of \<open>*\<close>.\<close>

definition vectorMag_num :: "('m, 'z) IVSDocument_scheme \<Rightarrow> number" where
  "vectorMag_num doc = (case vectorMag doc of None \<Rightarrow> NaN | Some m \<Rightarrow> m)"

fun calculateSimilarityScores ::
  "'m IVSDocument list \<Rightarrow> number list \<Rightarrow> number \<Rightarrow> error + ('m IVSDocument \<times> number) list"
where
  "calculateSimilarityScores [] queryVector queryMagnitude = Inr []"
| "calculateSimilarityScores (doc # rest) queryVector queryMagnitude =
     (case vector doc of
        None \<Rightarrow> Inl TypeError
      | Some v \<Rightarrow>
          (case calculateSimilarityScores rest queryVector queryMagnitude of
             Inl e \<Rightarrow> Inl e
           | Inr pairs \<Rightarrow>
               Inr ((doc,
                     normalizeScore
                       (getCosineSimilarityScore (dotProduct v queryVector)
                          (vectorMag_num doc) queryMagnitude)) # pairs)))"

definition updateHitCounters ::
  "('m, 'z) IVSDocument_scheme list \<Rightarrow> ('m, 'z) IVSDocument_scheme list" where
  "updateHitCounters results = map (\<lambda>doc. doc\<lparr>hits := Some (hits0 doc + 1)\<rparr>) results"

section \<open>The store\<close>

text \<open>
  The fields of the class. \<open>idb\<close> is the content of the object store \<open>documents\<close> of
  the IndexedDB database, which outlives the instance; \<open>db_open\<close> says whether
  \<open>this.db\<close> has been assigned. \<open>embedLog\<close> (the argument of every call of
  \<open>embedTextsFn\<close>, in order) and \<open>saveCount\<close> (the number of calls of
  \<open>saveToIndexDbStorage\<close>) record the calls of the provider and the saves. The
  ceiling \<open>maxSizeInMB\<close> is a finite number.
\<close>

record 'm VectorStorage =
  documents :: "'m IVSDocument list"
  maxSizeInMB :: real
  embedTextsFn :: "string list \<Rightarrow> error + number list list"
  trainingMode :: bool
  db_open :: bool
  idb :: "'m IVSDocument list"
  embedLog :: "string list list"
  saveCount :: nat

text \<open>
  What the class imports from \<open>./common/helpers\<close> and \<open>./common/constants\<close>, taken as
  parameters: the helpers \<open>getObjectSizeInMB\<close> and \<open>filterDocuments\<close>, the constant
  \<open>DEFAULT_MAX_SIZE_IN_MB\<close>, the default provider \<open>embedTexts\<close> (a network call), and
  \<open>Object.values(doc.metadata || {})\<close> restricted to the strings among the values.
\<close>

record ('m, 'f) helpers =
  getObjectSizeInMB :: "'m IVSDocument list \<Rightarrow> real"
  filterDocuments :: "'m IVSDocument list \<Rightarrow> 'f \<Rightarrow> 'm IVSDocument list"
  DEFAULT_MAX_SIZE_IN_MB :: real
  embedTexts :: "string list \<Rightarrow> error + number list list"
  metadataValues :: "'m \<Rightarrow> string list"

record IVSOptions =
  opt_maxSizeInMB :: "real option"
  opt_openAIApiKey :: "string option"
  opt_embedTextsFn :: "(string list \<Rightarrow> error + number list list) option"

record 'f IVSSimilaritySearchParams =
  query :: string
  k :: "int option"
  filterOptions :: 'f
  includeValues :: bool

subsection \<open>Eviction\<close>

text \<open>
  The comparator of \<open>removeDocsLRU\<close>,
  \<open>(a.hits ?? 0) - (b.hits ?? 0) || a.timestamp - b.timestamp\<close>.
\<close>

definition compareLRU ::
  "('m, 'z) IVSDocument_scheme \<Rightarrow> ('m, 'z) IVSDocument_scheme \<Rightarrow> int" where
  "compareLRU a b =
     (let h = int (hits0 a) - int (hits0 b)
      in if h \<noteq> 0 then h else timestamp a - timestamp b)"

text \<open>
  The loop \<open>while (getObjectSizeInMB(this.documents) > this.maxSizeInMB)
  this.documents.shift()\<close>. \<open>shift\<close> leaves an empty array empty, so the loop does not
  end when the empty array is over the ceiling: that is the value \<open>None\<close>.
\<close>

partial_function (option) shiftLoop ::
  "('a list \<Rightarrow> real) \<Rightarrow> real \<Rightarrow> 'a list \<Rightarrow> 'a list option" where
  "shiftLoop sizeInMB maxSize ds =
     (if sizeInMB ds > maxSize then shiftLoop sizeInMB maxSize (tl ds) else Some ds)"

definition removeDocsLRU ::
  "('m, 'f) helpers \<Rightarrow> 'm VectorStorage \<Rightarrow> 'm VectorStorage option" where
  "removeDocsLRU H s =
     (if trainingMode s then Some s
      else if getObjectSizeInMB H (documents s) > maxSizeInMB s then
        (case shiftLoop (getObjectSizeInMB H) (maxSizeInMB s)
                (array_sort (\<lambda>a b. compareLRU a b > 0) (documents s)) of
           None \<Rightarrow> None
         | Some ds \<Rightarrow> Some (s\<lparr>documents := ds\<rparr>))
      else Some s)"

subsection \<open>Persistence\<close>

text \<open>
  \<open>saveToIndexDbStorage\<close> opens the database when needed, then clears the object store
  and puts every document in one transaction. The store has a unique index on \<open>text\<close>
  (\<open>initDB\<close>), so a put of a second record with the same text fails, the transaction
  aborts and the error is logged and swallowed: the backend keeps what it had.
\<close>

definition saveToIndexDbStorage :: "'m VectorStorage \<Rightarrow> 'm VectorStorage" where
  "saveToIndexDbStorage s =
     s\<lparr>db_open := True,
       idb := (if distinct (map doc_text (documents s)) then documents s else idb s),
       saveCount := saveCount s + 1\<rparr>"

definition loadFromIndexDbStorage ::
  "('m, 'f) helpers \<Rightarrow> 'm VectorStorage \<Rightarrow> 'm VectorStorage option" where
  "loadFromIndexDbStorage H s = removeDocsLRU H (s\<lparr>db_open := True, documents := idb s\<rparr>)"

subsection \<open>Construction and training mode\<close>

text \<open>
  \<open>backend\<close> is what the database holds when the instance is made. \<open>!this.openaiApiKey\<close>
  holds for an undefined and for an empty key. The load that the constructor starts is
  taken to have finished before the first operation.
\<close>

definition new_VectorStorage ::
  "('m, 'f) helpers \<Rightarrow> IVSOptions \<Rightarrow> 'm IVSDocument list \<Rightarrow> 'm VectorStorage option" where
  "new_VectorStorage H options backend =
     (let s = \<lparr>documents = [],
                maxSizeInMB = (case opt_maxSizeInMB options of
                                 None \<Rightarrow> DEFAULT_MAX_SIZE_IN_MB H | Some m \<Rightarrow> m),
                embedTextsFn = (case opt_embedTextsFn options of
                                  None \<Rightarrow> embedTexts H | Some f \<Rightarrow> f),
                trainingMode = True,
                db_open = False,
                idb = backend,
                embedLog = [],
                saveCount = 0\<rparr>
      in if (opt_openAIApiKey options = None \<or> opt_openAIApiKey options = Some [])
            \<and> opt_embedTextsFn options = None
         then Some s
         else loadFromIndexDbStorage H s)"

definition startTrainingMode :: "'m VectorStorage \<Rightarrow> 'm VectorStorage" where
  "startTrainingMode s = s\<lparr>trainingMode := True\<rparr>"

definition endTrainingMode :: "'m VectorStorage \<Rightarrow> 'm VectorStorage" where
  "endTrainingMode s = s\<lparr>trainingMode := False\<rparr>"

subsection \<open>Insertion\<close>

text \<open>A call of \<open>this.embedTextsFn\<close>, recorded in the log.\<close>

definition callEmbed ::
  "'m VectorStorage \<Rightarrow> string list \<Rightarrow> 'm VectorStorage \<times> (error + number list list)" where
  "callEmbed s texts = (s\<lparr>embedLog := embedLog s @ [texts]\<rparr>, embedTextsFn s texts)"

text \<open>
  The \<open>forEach\<close> of \<open>addDocuments\<close>: \<open>newVectors[index]\<close> is undefined past the end of
  what the provider returned, and \<open>calcVectorMagnitude\<close> throws on it.
\<close>

fun assignVectors ::
  "number list list \<Rightarrow> nat \<Rightarrow> 'm IVSDocument list \<Rightarrow> error + 'm IVSDocument list" where
  "assignVectors newVectors index [] = Inr []"
| "assignVectors newVectors index (doc # rest) =
     (let doc1 = doc\<lparr>vector :=
                   (if index < length newVectors then Some (newVectors ! index) else None)\<rparr>
      in case calcVectorMagnitude doc1 of
           Inl e \<Rightarrow> Inl e
         | Inr m \<Rightarrow>
             (case assignVectors newVectors (index + 1) rest of
                Inl e \<Rightarrow> Inl e
              | Inr ds \<Rightarrow> Inr (doc1\<lparr>vectorMag := Some m\<rparr> # ds)))"

text \<open>The predicate of the \<open>filter\<close> of \<open>addDocuments\<close>.\<close>

definition isNewDocument ::
  "'m VectorStorage \<Rightarrow> string list \<Rightarrow> 'm IVSDocument \<Rightarrow> bool" where
  "isNewDocument s existingTexts doc =
     (trim (doc_text doc) \<noteq> []
      \<and> \<not> list_ex (\<lambda>d. doc_text d = doc_text doc) (documents s)
      \<and> doc_text doc \<notin> set existingTexts)"

text \<open>
  The result of an operation: the store after it and what the call returns or throws;
  \<open>None\<close> when the call does not return (the loop of \<open>removeDocsLRU\<close>).
  \<open>this.db.getAll\<close> throws when \<open>this.db\<close> was never assigned.
\<close>

definition addDocuments ::
  "('m, 'f) helpers \<Rightarrow> 'm VectorStorage \<Rightarrow> 'm IVSDocument list
     \<Rightarrow> ('m VectorStorage \<times> (error + 'm IVSDocument list)) option" where
  "addDocuments H s docs =
     (if \<not> db_open s then Some (s, Inl TypeError)
      else
        let existingDocs = idb s;
            existingTexts = map doc_text existingDocs;
            newDocuments = filter (isNewDocument s existingTexts) docs
        in if length newDocuments = 0 then Some (s, Inr [])
           else
             (case callEmbed s (map doc_text newDocuments) of
                (s1, Inl e) \<Rightarrow> Some (s1, Inl e)
              | (s1, Inr newVectors) \<Rightarrow>
                  (case assignVectors newVectors 0 newDocuments of
                     Inl e \<Rightarrow> Some (s1, Inl e)
                   | Inr newDocuments' \<Rightarrow>
                       (case removeDocsLRU H
                               (s1\<lparr>documents := documents s1 @ newDocuments'\<rparr>) of
                          None \<Rightarrow> None
                        | Some s2 \<Rightarrow>
                            Some (saveToIndexDbStorage s2, Inr newDocuments')))))"

text \<open>\<open>docs[0]\<close> of \<open>addText\<close> is undefined when nothing was inserted.\<close>

definition addText ::
  "('m, 'f) helpers \<Rightarrow> int \<Rightarrow> 'm VectorStorage \<Rightarrow> string \<Rightarrow> 'm
     \<Rightarrow> ('m VectorStorage \<times> (error + 'm IVSDocument option)) option" where
  "addText H now s txt md =
     (let doc = \<lparr>hits = None, metadata = md, doc_text = txt, timestamp = now,
                  vector = Some [], vectorMag = Some (Fin 0)\<rparr>
      in case addDocuments H s [doc] of
           None \<Rightarrow> None
         | Some (s', Inl e) \<Rightarrow> Some (s', Inl e)
         | Some (s', Inr ds) \<Rightarrow>
             Some (s', Inr (case ds of [] \<Rightarrow> None | d # _ \<Rightarrow> Some d)))"

text \<open>\<open>now i\<close> is what \<open>Date.now()\<close> returns for the element of index \<open>i\<close>.\<close>

definition addTexts ::
  "('m, 'f) helpers \<Rightarrow> (nat \<Rightarrow> int) \<Rightarrow> 'm VectorStorage \<Rightarrow> string list \<Rightarrow> 'm list
     \<Rightarrow> ('m VectorStorage \<times> (error + 'm IVSDocument list)) option" where
  "addTexts H now s texts metadatas =
     (if length texts \<noteq> length metadatas
      then Some (s, Inl (Error ''The lengths of texts and metadata arrays must match.''))
      else
        let docs = map (\<lambda>(txt, index).
                      \<lparr>hits = None, metadata = metadatas ! index, doc_text = txt,
                       timestamp = now index, vector = Some [], vectorMag = Some (Fin 0)\<rparr>)
                    (zip texts [0..<length texts])
        in addDocuments H s docs)"

subsection \<open>Search\<close>

text \<open>\<open>(await this.embedTextsFn([query]))[0]\<close>: undefined when the provider returns no vector.\<close>

definition embedText ::
  "'m VectorStorage \<Rightarrow> string \<Rightarrow> 'm VectorStorage \<times> (error + number list option)" where
  "embedText s q =
     (case callEmbed s [q] of
        (s1, Inl e) \<Rightarrow> (s1, Inl e)
      | (s1, Inr vs) \<Rightarrow> (s1, Inr (case vs of [] \<Rightarrow> None | v # _ \<Rightarrow> Some v)))"

text \<open>The comparator of the search, \<open>b[1] - a[1]\<close>.\<close>

definition compareScore :: "'a \<times> number \<Rightarrow> 'a \<times> number \<Rightarrow> number" where
  "compareScore a b = num_sub (snd b) (snd a)"

text \<open>\<open>{ ...pair[0], score: pair[1] }\<close>: a new object with the fields of the document.\<close>

definition spread_score :: "'m IVSDocument \<times> number \<Rightarrow> 'm IVSSimilaritySearchItem" where
  "spread_score pair =
     \<lparr>hits = hits (fst pair), metadata = metadata (fst pair),
      doc_text = doc_text (fst pair), timestamp = timestamp (fst pair),
      vector = vector (fst pair), vectorMag = vectorMag (fst pair),
      score = snd pair\<rparr>"

text \<open>\<open>delete result.vector; delete result.vectorMag\<close>\<close>

definition deleteValues :: "'m IVSSimilaritySearchItem \<Rightarrow> 'm IVSSimilaritySearchItem" where
  "deleteValues result = result\<lparr>vector := None, vectorMag := None\<rparr>"

text \<open>
  \<open>similaritySearch\<close> returns the items and the query with its embedding.
  \<open>calculateMagnitude\<close> throws on an undefined embedding. \<open>updateHitCounters\<close> is
  applied to \<open>results\<close>, the new objects that the spread made: \<open>this.documents\<close> is
  not written between the embedding and \<open>removeDocsLRU\<close>.
\<close>

definition similaritySearch ::
  "('m, 'f) helpers \<Rightarrow> 'm VectorStorage \<Rightarrow> 'f IVSSimilaritySearchParams
     \<Rightarrow> ('m VectorStorage
          \<times> (error + 'm IVSSimilaritySearchItem list \<times> (number list \<times> string))) option"
where
  "similaritySearch H s params =
     (let kk = (case k params of None \<Rightarrow> 4 | Some n \<Rightarrow> n)
      in case embedText s (query params) of
           (s1, Inl e) \<Rightarrow> Some (s1, Inl e)
         | (s1, Inr None) \<Rightarrow> Some (s1, Inl TypeError)
         | (s1, Inr (Some queryEmbedding)) \<Rightarrow>
             (let queryMagnitude = calculateMagnitude queryEmbedding;
                  filteredDocuments = filterDocuments H (documents s1) (filterOptions params)
              in case calculateSimilarityScores filteredDocuments queryEmbedding
                        queryMagnitude of
                   Inl e \<Rightarrow> Some (s1, Inl e)
                 | Inr scoresPairs \<Rightarrow>
                     (let sortedPairs =
                            array_sort (\<lambda>a b. num_gt (compareScore a b) (Fin 0)) scoresPairs;
                          results =
                            updateHitCounters (map spread_score (slice0 kk sortedPairs));
                          similarItems =
                            (if includeValues params then results
                             else map deleteValues results);
                          answer = (similarItems, (queryEmbedding, query params))
                      in if length results > 0 then
                           (case removeDocsLRU H s1 of
                              None \<Rightarrow> None
                            | Some s2 \<Rightarrow> Some (saveToIndexDbStorage s2, Inr answer))
                         else Some (s1, Inr answer))))"

subsection \<open>Deletion\<close>

definition deleteDocumentsByMetadata ::
  "('m, 'f) helpers \<Rightarrow> 'm VectorStorage \<Rightarrow> string \<Rightarrow> 'm VectorStorage" where
  "deleteDocumentsByMetadata H s documentId =
     saveToIndexDbStorage
       (s\<lparr>documents :=
            filter (\<lambda>doc. documentId \<notin> set (metadataValues H (metadata doc)))
              (documents s)\<rparr>)"

subsection \<open>Sequences of calls\<close>

text \<open>
  The public methods as one type, and the store after a call, whether the call returned
  or threw; \<open>None\<close> when it does not return.
\<close>

datatype ('m, 'f) operation =
    AddText string 'm int
  | AddTexts "string list" "'m list" "nat \<Rightarrow> int"
  | SimilaritySearch "'f IVSSimilaritySearchParams"
  | DeleteDocumentsByMetadata string
  | StartTrainingMode
  | EndTrainingMode

fun perform ::
  "('m, 'f) helpers \<Rightarrow> 'm VectorStorage \<Rightarrow> ('m, 'f) operation \<Rightarrow> 'm VectorStorage option"
where
  "perform H s (AddText txt md now) = map_option fst (addText H now s txt md)"
| "perform H s (AddTexts texts metadatas now) = map_option fst (addTexts H now s texts metadatas)"
| "perform H s (SimilaritySearch params) = map_option fst (similaritySearch H s params)"
| "perform H s (DeleteDocumentsByMetadata documentId) =
     Some (deleteDocumentsByMetadata H s documentId)"
| "perform H s StartTrainingMode = Some (startTrainingMode s)"
| "perform H s EndTrainingMode = Some (endTrainingMode s)"

fun run ::
  "('m, 'f) helpers \<Rightarrow> 'm VectorStorage \<Rightarrow> ('m, 'f) operation list \<Rightarrow> 'm VectorStorage option"
where
  "run H s [] = Some s"
| "run H s (op # ops) = (case perform H s op of None \<Rightarrow> None | Some s' \<Rightarrow> run H s' ops)"

section \<open>Example values\<close>

text \<open>
  A provider that embeds every text as \<open>(3, 4)\<close>, helpers that count one megabyte for
  each document and filter nothing, and stores built from them.
\<close>

definition example_embed :: "string list \<Rightarrow> error + number list list" where
  "example_embed texts = Inr (map (\<lambda>t. [Fin 3, Fin 4]) texts)"

definition example_helpers :: "(string, unit) helpers" where
  "example_helpers =
     \<lparr>getObjectSizeInMB = (\<lambda>ds. real (length ds)),
      filterDocuments = (\<lambda>ds f. ds),
      DEFAULT_MAX_SIZE_IN_MB = 2048,
      embedTexts = (\<lambda>texts. Inl (Error ''HTTP error! status: 401'')),
      metadataValues = (\<lambda>m. [m])\<rparr>"

definition example_options :: IVSOptions where
  "example_options =
     \<lparr>opt_maxSizeInMB = Some 1, opt_openAIApiKey = None,
      opt_embedTextsFn = Some example_embed\<rparr>"

definition example_doc :: "string \<Rightarrow> int \<Rightarrow> string IVSDocument" where
  "example_doc txt t =
     \<lparr>hits = None, metadata = ''m'', doc_text = txt, timestamp = t,
      vector = Some [Fin 3, Fin 4], vectorMag = Some (Fin 5)\<rparr>"

definition example_store :: "string IVSDocument list \<Rightarrow> bool \<Rightarrow> string VectorStorage" where
  "example_store ds training =
     \<lparr>documents = ds, maxSizeInMB = 1, embedTextsFn = example_embed,
      trainingMode = training, db_open = True, idb = ds, embedLog = [], saveCount = 0\<rparr>"

text \<open>A provider that embeds every text as \<open>(2 ^ 512, 2 ^ 512)\<close>.\<close>

definition example_embed_large :: "string list \<Rightarrow> error + number list list" where
  "example_embed_large texts = Inr (map (\<lambda>t. [Fin (2 ^ 512), Fin (2 ^ 512)]) texts)"

section \<open>Vocabulary of the specification\<close>

text \<open>Ascending by \<open>(hits, timestamp)\<close>: fewer hits first, then older first.\<close>

definition lru_le :: "('m, 'z) IVSDocument_scheme \<Rightarrow> ('m, 'z) IVSDocument_scheme \<Rightarrow> bool" where
  "lru_le a b = (hits0 a < hits0 b \<or> (hits0 a = hits0 b \<and> timestamp a \<le> timestamp b))"

section \<open>Search results as objects\<close>

text \<open>
  The three lines of \<open>similaritySearch\<close> that sort, slice and spread the pairs and call
  \<open>updateHitCounters\<close>, over an explicit store of objects, so that the identity of the
  objects shows: a pair holds a reference to a document of \<open>this.documents\<close>, the spread
  allocates a new object with the fields of that document and the score, and
  \<open>updateHitCounters\<close> writes the objects of the list it is given. A cell holds the
  document fields of an object and its score, if it has one; \<open>fresh\<close> is the next
  unused reference.
\<close>

type_synonym ref = nat

record 'm objects =
  cells :: "ref \<Rightarrow> 'm IVSDocument \<times> number option"
  fresh :: ref

definition spread_alloc :: "'m objects \<Rightarrow> ref \<times> number \<Rightarrow> 'm objects \<times> ref" where
  "spread_alloc h pair =
     (h\<lparr>cells := (cells h)(fresh h := (fst (cells h (fst pair)), Some (snd pair))),
        fresh := fresh h + 1\<rparr>,
      fresh h)"

fun spread_all :: "'m objects \<Rightarrow> (ref \<times> number) list \<Rightarrow> 'm objects \<times> ref list" where
  "spread_all h [] = (h, [])"
| "spread_all h (pair # pairs) =
     (case spread_alloc h pair of
        (h1, r) \<Rightarrow> (case spread_all h1 pairs of (h2, rs) \<Rightarrow> (h2, r # rs)))"

fun updateHitCounters_refs :: "'m objects \<Rightarrow> ref list \<Rightarrow> 'm objects" where
  "updateHitCounters_refs h [] = h"
| "updateHitCounters_refs h (r # rs) =
     updateHitCounters_refs
       (h\<lparr>cells := (cells h)(r := ((fst (cells h r))\<lparr>hits := Some (hits0 (fst (cells h r)) + 1)\<rparr>,
                                    snd (cells h r)))\<rparr>)
       rs"

definition record_results ::
  "'m objects \<Rightarrow> (ref \<times> number) list \<Rightarrow> int \<Rightarrow> 'm objects \<times> ref list" where
  "record_results h scoresPairs kk =
     (let sortedPairs = array_sort (\<lambda>a b. num_gt (compareScore a b) (Fin 0)) scoresPairs
      in case spread_all h (slice0 kk sortedPairs) of
           (h1, results) \<Rightarrow> (updateHitCounters_refs h1 results, results))"

section \<open>The magnitude in the words of the specification\<close>

text \<open>
  The L2 norm in the words of the specification: the square root of the sum of the
  squares, a real number.
\<close>

definition l2_norm :: "real list \<Rightarrow> real" where
  "l2_norm xs = sqrt (\<Sum>x\<leftarrow>xs. x\<^sup>2)"

text \<open>
  \<open>exact_squares acc xs\<close>: the program's computation of the magnitude, continued from the
  partial sum \<open>acc\<close> over the components \<open>xs\<close>, rounds nowhere: every square, every
  partial sum and the square root are binary64 numbers.
\<close>

fun exact_squares :: "real \<Rightarrow> real list \<Rightarrow> bool" where
  "exact_squares acc [] = (round_double (sqrt acc) = Fin (sqrt acc))"
| "exact_squares acc (x # xs) =
     (round_double (x * x) = Fin (x * x)
      \<and> round_double (acc + x * x) = Fin (acc + x * x)
      \<and> exact_squares (acc + x * x) xs)"

text \<open>
  The invariant of the cached magnitude: a document has a vector, and its \<open>vectorMag\<close>
  is the magnitude that the program computes for that vector.
\<close>

definition norm_cached :: "('m, 'z) IVSDocument_scheme \<Rightarrow> bool" where
  "norm_cached doc =
     (case vector doc of
        None \<Rightarrow> False
      | Some v \<Rightarrow> vectorMag doc = Some (calculateMagnitude v))"

text \<open>The invariant for the documents in memory and the records of the backend.\<close>

definition all_cached :: "'m VectorStorage \<Rightarrow> bool" where
  "all_cached s = (list_all norm_cached (documents s) \<and> list_all norm_cached (idb s))"

section \<open>Properties\<close>

subsection \<open>Rounding\<close>

text \<open>
  What the properties below need of the rounding: a number \<open>m * 2 ^ j\<close> with \<open>m\<close> of
  at most 53 bits, in the range of binary64, is rounded to itself; every rounded number
  is a multiple of the least subnormal number; a result of \<open>2 ^ 1024\<close> or more
  overflows and one below \<open>2 ^ -1075\<close> underflows; and a non-zero multiple of the least subnormal number keeps its sign (no
  difference of two binary64 numbers underflows to zero).
\<close>

lemma round_even_of_int [simp]: "round_even (of_int n) = n"
  by (simp add: round_even_def)

lemma round_even_ge: "1 \<le> x \<Longrightarrow> 1 \<le> round_even x"
proof -
  assume "1 \<le> x"
  then have "1 \<le> \<lfloor>x\<rfloor>" by linarith
  then show ?thesis by (auto simp: round_even_def Let_def)
qed

lemma round_even_le: "x \<le> - 1 \<Longrightarrow> round_even x \<le> - 1"
proof -
  assume x: "x \<le> - 1"
  show ?thesis
  proof (cases "x = of_int \<lfloor>x\<rfloor>")
    case True
    then have "round_even x = \<lfloor>x\<rfloor>" by (simp add: round_even_def)
    then show ?thesis using x by linarith
  next
    case False
    then have "of_int \<lfloor>x\<rfloor> < x" by linarith
    then have "\<lfloor>x\<rfloor> \<le> - 2" using x by linarith
    moreover have "round_even x \<le> \<lfloor>x\<rfloor> + 1" by (auto simp: round_even_def Let_def)
    ultimately show ?thesis by linarith
  qed
qed

lemma log2_bounds:
  assumes "x \<noteq> 0"
  shows "power_int 2 \<lfloor>log 2 \<bar>x\<bar>\<rfloor> \<le> \<bar>x\<bar>" and "\<bar>x\<bar> < power_int 2 (\<lfloor>log 2 \<bar>x\<bar>\<rfloor> + 1)"
proof -
  have p: "0 < \<bar>x\<bar>" using assms by simp
  have "(2::real) powr (of_int \<lfloor>log 2 \<bar>x\<bar>\<rfloor>) \<le> \<bar>x\<bar>
      \<and> \<bar>x\<bar> < 2 powr (of_int (\<lfloor>log 2 \<bar>x\<bar>\<rfloor> + 1))"
    using floor_log_eq_powr_iff [OF p, of 2 "\<lfloor>log 2 \<bar>x\<bar>\<rfloor>"] by simp
  then have a: "(2::real) powr (of_int \<lfloor>log 2 \<bar>x\<bar>\<rfloor>) \<le> \<bar>x\<bar>"
    and b: "\<bar>x\<bar> < 2 powr (of_int (\<lfloor>log 2 \<bar>x\<bar>\<rfloor> + 1))"
    by blast+
  show "power_int 2 \<lfloor>log 2 \<bar>x\<bar>\<rfloor> \<le> \<bar>x\<bar>"
    using a by (simp only: powr_real_of_int' [of 2, simplified])
  show "\<bar>x\<bar> < power_int 2 (\<lfloor>log 2 \<bar>x\<bar>\<rfloor> + 1)"
    using b by (simp only: powr_real_of_int' [of 2, simplified])
qed

lemma log2_upper:
  assumes "x \<noteq> 0" and "\<bar>x\<bar> < power_int 2 i"
  shows "\<lfloor>log 2 \<bar>x\<bar>\<rfloor> < i"
proof (rule ccontr)
  assume "\<not> \<lfloor>log 2 \<bar>x\<bar>\<rfloor> < i"
  then have "i \<le> \<lfloor>log 2 \<bar>x\<bar>\<rfloor>" by simp
  then have "power_int (2::real) i \<le> power_int 2 \<lfloor>log 2 \<bar>x\<bar>\<rfloor>"
    by (intro power_int_increasing) simp_all
  then show False using log2_bounds(1) [OF assms(1)] assms(2) by linarith
qed

lemma min_subnormal_pos: "0 < min_subnormal"
  unfolding min_subnormal_def by (rule zero_less_power_int) simp

lemma power_int_nat: "0 \<le> i \<Longrightarrow> power_int (2::real) i = of_int (2 ^ nat i)"
  by (simp add: power_int_def)

lemma round_double_exact:
  assumes x: "x = of_int m * power_int 2 j" and m: "\<bar>m\<bar> < 2 ^ 53" and j: "- 1074 \<le> j"
    and fin: "\<bar>x\<bar> < 2 ^ 1024"
  shows "round_double x = Fin x"
proof (cases "x = 0")
  case True
  then show ?thesis by (simp add: round_double_def)
next
  case False
  define e where "e = max \<lfloor>log 2 \<bar>x\<bar>\<rfloor> (- 1022)"
  define i where "i = j - e + 52"
  have "\<bar>x\<bar> = of_int \<bar>m\<bar> * power_int 2 j" by (simp add: x abs_mult)
  also have "\<dots> < 2 ^ 53 * power_int 2 j"
  proof -
    have "(of_int \<bar>m\<bar> :: real) < of_int (2 ^ 53)" using m by (simp only: of_int_less_iff)
    then show ?thesis by simp
  qed
  also have "\<dots> = power_int 2 (53 + j)" by (simp add: power_int_add)
  finally have "\<lfloor>log 2 \<bar>x\<bar>\<rfloor> < 53 + j" using log2_upper [OF False] by blast
  then have i0: "0 \<le> i" using j by (simp add: i_def e_def)
  have q: "x / power_int 2 (e - 52) = of_int (m * 2 ^ nat i)"
  proof -
    have "x / power_int 2 (e - 52) = of_int m * (power_int 2 j / power_int 2 (e - 52))"
      by (simp add: x)
    also have "power_int (2::real) j / power_int 2 (e - 52) = power_int 2 i"
    proof -
      have "power_int (2::real) (j - (e - 52)) = power_int 2 j / power_int 2 (e - 52)"
        by (rule power_int_diff) simp
      moreover have "j - (e - 52) = i" by (simp add: i_def)
      ultimately show ?thesis by simp
    qed
    finally show ?thesis using i0 by (simp add: power_int_nat)
  qed
  have y: "of_int (round_even (x / power_int 2 (e - 52))) * power_int 2 (e - 52) = x"
  proof -
    have "of_int (round_even (x / power_int 2 (e - 52))) * power_int 2 (e - 52)
        = x / power_int 2 (e - 52) * power_int 2 (e - 52)"
      by (simp only: q round_even_of_int)
    then show ?thesis by simp
  qed
  show ?thesis
    using False fin unfolding round_double_def Let_def e_def [symmetric] y by simp
qed

lemma round_double_int:
  "\<bar>m\<bar> < 2 ^ 53 \<Longrightarrow> round_double (of_int m) = Fin (of_int m)"
proof -
  assume m: "\<bar>m\<bar> < 2 ^ 53"
  have "\<bar>of_int m :: real\<bar> < of_int (2 ^ 53)" using m by (simp only: of_int_abs [symmetric] of_int_less_iff)
  then have "\<bar>of_int m :: real\<bar> < 2 ^ 1024" by simp
  then show ?thesis using round_double_exact [of "of_int m" m 0] m by simp
qed

lemma round_double_grid:
  assumes "round_double x = Fin y"
  shows "on_grid y"
proof (cases "x = 0")
  case True
  then have "y = 0" using assms by (simp add: round_double_def)
  then have "y = of_int 0 * min_subnormal" by simp
  then show ?thesis unfolding on_grid_def by blast
next
  case False
  define e where "e = max \<lfloor>log 2 \<bar>x\<bar>\<rfloor> (- 1022)"
  define r where "r = round_even (x / power_int 2 (e - 52))"
  have "y = of_int r * power_int 2 (e - 52)"
    using assms False unfolding round_double_def Let_def e_def [symmetric] r_def
    by (simp split: if_splits)
  moreover have "0 \<le> e + 1022" by (simp add: e_def)
  then have "power_int (2::real) (e - 52) = of_int (2 ^ nat (e + 1022)) * min_subnormal"
  proof -
    assume a: "0 \<le> e + 1022"
    have "power_int (2::real) (e - 52) = power_int 2 ((e + 1022) + (- 1074))" by simp
    also have "\<dots> = power_int 2 (e + 1022) * power_int 2 (- 1074)"
      by (rule power_int_add) simp
    finally show ?thesis using a by (simp only: power_int_nat min_subnormal_def)
  qed
  ultimately have "y = of_int (r * 2 ^ nat (e + 1022)) * min_subnormal" by simp
  then show ?thesis unfolding on_grid_def by blast
qed

lemma round_even_floor: "\<lfloor>x\<rfloor> \<le> round_even x"
  by (auto simp: round_even_def Let_def)

lemma round_double_overflow:
  assumes "2 ^ 1024 \<le> x"
  shows "round_double x = PosInf"
proof -
  have x0: "x \<noteq> 0" "0 < x" "\<bar>x\<bar> = x" using assms by (simp_all add: order.strict_trans2 [of 0 "2 ^ 1024"])
  define e where "e = max \<lfloor>log 2 \<bar>x\<bar>\<rfloor> (- 1022)"
  define q :: real where "q = power_int 2 (e - 52)"
  have q0: "0 < q" by (simp add: q_def)
  have "\<not> \<lfloor>log 2 \<bar>x\<bar>\<rfloor> < 1024"
  proof
    assume "\<lfloor>log 2 \<bar>x\<bar>\<rfloor> < 1024"
    then have "\<lfloor>log 2 \<bar>x\<bar>\<rfloor> + 1 \<le> 1024" by simp
    then have "power_int (2::real) (\<lfloor>log 2 \<bar>x\<bar>\<rfloor> + 1) \<le> power_int 2 1024"
      by (intro power_int_increasing) simp_all
    then show False using log2_bounds(2) [OF x0(1)] assms x0(3) by simp
  qed
  then have e: "e = \<lfloor>log 2 \<bar>x\<bar>\<rfloor>" "1024 \<le> e" by (simp_all add: e_def)
  have "power_int 2 e \<le> x" using log2_bounds(1) [OF x0(1)] e(1) x0(3) by simp
  then have "power_int 2 e / q \<le> x / q" using q0 by (simp add: divide_right_mono)
  moreover have "power_int (2::real) e / q = of_int (2 ^ 52)"
  proof -
    have "power_int (2::real) (e - (e - 52)) = power_int 2 e / power_int 2 (e - 52)"
      by (rule power_int_diff) simp
    then show ?thesis by (simp add: q_def)
  qed
  ultimately have "of_int (2 ^ 52) \<le> x / q" by simp
  then have "2 ^ 52 \<le> \<lfloor>x / q\<rfloor>" by (simp only: le_floor_iff)
  then have "2 ^ 52 \<le> round_even (x / q)" using round_even_floor [of "x / q"] by linarith
  then have "(of_int (2 ^ 52) :: real) \<le> of_int (round_even (x / q))" by (simp only: of_int_le_iff)
  then have "of_int (2 ^ 52) * q \<le> of_int (round_even (x / q)) * q"
    using q0 by (simp only: mult_le_cancel_right_pos)
  moreover have "of_int (2 ^ 52) * q = power_int 2 e"
  proof -
    have "power_int (2::real) (52 + (e - 52)) = power_int 2 52 * power_int 2 (e - 52)"
      by (rule power_int_add) simp
    then show ?thesis by (simp add: q_def)
  qed
  moreover have "power_int (2::real) 1024 \<le> power_int 2 e"
    using e(2) by (intro power_int_increasing) simp_all
  ultimately have big: "2 ^ 1024 \<le> of_int (round_even (x / q)) * q" by simp
  then have "2 ^ 1024 \<le> \<bar>of_int (round_even (x / q)) * q\<bar>" by linarith
  then show ?thesis
    using x0 unfolding round_double_def Let_def e_def [symmetric] q_def [symmetric] by simp
qed

lemma grid_quotient:
  assumes "z = of_int n * min_subnormal" and "z \<noteq> 0"
  defines "q \<equiv> power_int 2 (max \<lfloor>log 2 \<bar>z\<bar>\<rfloor> (- 1022) - 52)"
  shows "0 < q" and "0 < z \<Longrightarrow> 1 \<le> z / q" and "z < 0 \<Longrightarrow> z / q \<le> - 1"
proof -
  define e where "e = max \<lfloor>log 2 \<bar>z\<bar>\<rfloor> (- 1022)"
  have qe: "q = power_int 2 (e - 52)" by (simp add: q_def e_def)
  show q0: "0 < q" unfolding qe by (rule zero_less_power_int) simp
  have abs1: "1 \<le> \<bar>z\<bar> / q"
  proof (cases "\<lfloor>log 2 \<bar>z\<bar>\<rfloor> \<le> - 1022")
    case True
    then have "e - 52 = - 1074" by (simp add: e_def)
    then have "q = min_subnormal" by (simp only: qe min_subnormal_def)
    then have "\<bar>z\<bar> / q = \<bar>of_int n\<bar>"
      using assms(1) min_subnormal_pos by (simp add: abs_mult)
    moreover have "n \<noteq> 0" using assms(1,2) by auto
    then have "1 \<le> \<bar>n\<bar>" by simp
    then have "(1::real) \<le> of_int \<bar>n\<bar>" by (simp only: of_int_1_le_iff)
    ultimately show ?thesis by simp
  next
    case False
    then have e: "e = \<lfloor>log 2 \<bar>z\<bar>\<rfloor>" by (simp add: e_def)
    have "power_int 2 e \<le> \<bar>z\<bar>" using log2_bounds(1) [OF assms(2)] e by simp
    then have "power_int 2 e / q \<le> \<bar>z\<bar> / q" using q0 by (simp add: divide_right_mono)
    moreover have "power_int (2::real) e / q = of_int (2 ^ 52)"
    proof -
      have "power_int (2::real) (e - (e - 52)) = power_int 2 e / power_int 2 (e - 52)"
        by (rule power_int_diff) simp
      then show ?thesis by (simp add: qe)
    qed
    ultimately show ?thesis by simp
  qed
  show "0 < z \<Longrightarrow> 1 \<le> z / q" using abs1 by simp
  show "z < 0 \<Longrightarrow> z / q \<le> - 1"
  proof -
    assume "z < 0"
    then have "\<bar>z\<bar> / q = - (z / q)" by simp
    then show ?thesis using abs1 by linarith
  qed
qed

lemma round_double_sign:
  assumes "on_grid z"
  shows "0 < z \<Longrightarrow> round_double z = PosInf \<or> (\<exists>y>0. round_double z = Fin y)"
    and "z < 0 \<Longrightarrow> round_double z = NegInf \<or> (\<exists>y<0. round_double z = Fin y)"
proof -
  obtain n :: int where n: "z = of_int n * min_subnormal"
    using assms by (auto simp: on_grid_def)
  define q :: real where "q = power_int 2 (max \<lfloor>log 2 \<bar>z\<bar>\<rfloor> (- 1022) - 52)"
  {
    assume z: "0 < z"
    then have z0: "z \<noteq> 0" by simp
    have q0: "0 < q" and "1 \<le> z / q"
      using grid_quotient [OF n z0] z by (simp_all add: q_def)
    then have "1 \<le> round_even (z / q)" by (simp add: round_even_ge)
    then have "0 < (of_int (round_even (z / q)) :: real)" by simp
    then have "0 < of_int (round_even (z / q)) * q" using q0 by simp
    then show "round_double z = PosInf \<or> (\<exists>y>0. round_double z = Fin y)"
      using z unfolding round_double_def Let_def q_def [symmetric] by simp
  }
  {
    assume z: "z < 0"
    then have z0: "z \<noteq> 0" by simp
    have q0: "0 < q" and "z / q \<le> - 1"
      using grid_quotient [OF n z0] z by (simp_all add: q_def)
    then have "round_even (z / q) \<le> - 1" by (simp add: round_even_le)
    then have "(of_int (round_even (z / q)) :: real) < 0" by simp
    then have "of_int (round_even (z / q)) * q < 0" using q0 by (simp add: mult_neg_pos)
    then show "round_double z = NegInf \<or> (\<exists>y<0. round_double z = Fin y)"
      using z unfolding round_double_def Let_def q_def [symmetric] by simp
  }
qed

lemma on_grid_diff: "on_grid a \<Longrightarrow> on_grid b \<Longrightarrow> on_grid (b - a)"
proof -
  assume "on_grid a" "on_grid b"
  then obtain m n :: int where "a = of_int m * min_subnormal" "b = of_int n * min_subnormal"
    by (auto simp: on_grid_def)
  then have "b - a = of_int (n - m) * min_subnormal" by (simp add: algebra_simps)
  then show ?thesis unfolding on_grid_def by blast
qed

lemma round_double_zero [simp]: "round_double 0 = Fin 0"
  by (simp add: round_double_def)

lemma round_double_is_double: "is_double (round_double x)"
  by (cases "round_double x") (simp_all add: is_double_def round_double_grid)

lemma round_double_diff:
  assumes "on_grid a" and "on_grid b"
  shows "num_gt (round_double (b - a)) (Fin 0) \<longleftrightarrow> a < b"
proof -
  have g: "on_grid (b - a)" using assms by (rule on_grid_diff)
  consider "a < b" | "a = b" | "b < a" by linarith
  then show ?thesis
  proof cases
    case 1
    then have "0 < b - a" by simp
    from round_double_sign(1) [OF g this] 1 show ?thesis by auto
  next
    case 2
    then show ?thesis by simp
  next
    case 3
    then have "b - a < 0" by simp
    from round_double_sign(2) [OF g this] 3 show ?thesis by auto
  qed
qed

lemma round_even_small: "\<bar>t\<bar> < 1 / 2 \<Longrightarrow> round_even t = 0"
proof -
  assume t: "\<bar>t\<bar> < 1 / 2"
  show ?thesis
  proof (cases "0 \<le> t")
    case True
    then have "\<lfloor>t\<rfloor> = 0" using t by linarith
    then show ?thesis using t True by (simp add: round_even_def)
  next
    case False
    then have "\<lfloor>t\<rfloor> = - 1" using t by linarith
    then show ?thesis using t False by (simp add: round_even_def)
  qed
qed

lemma round_double_underflow:
  assumes "\<bar>x\<bar> < power_int 2 (- 1075)"
  shows "round_double x = Fin 0"
proof (cases "x = 0")
  case True
  then show ?thesis by simp
next
  case False
  have "\<lfloor>log 2 \<bar>x\<bar>\<rfloor> < - 1075" using False assms by (rule log2_upper)
  then have e: "max \<lfloor>log 2 \<bar>x\<bar>\<rfloor> (- 1022) - 52 = - 1074" by simp
  have "power_int (2::real) (- 1 + - 1074) = power_int 2 (- 1) * power_int 2 (- 1074)"
    by (rule power_int_add) simp
  then have h: "power_int (2::real) (- 1075) = min_subnormal / 2"
    by (simp add: min_subnormal_def)
  have "\<bar>x / min_subnormal\<bar> = \<bar>x\<bar> / min_subnormal"
    using min_subnormal_pos by simp
  also have "\<dots> < 1 / 2"
    using assms min_subnormal_pos unfolding h by (simp add: field_simps)
  finally have "round_even (x / min_subnormal) = 0" by (rule round_even_small)
  then show ?thesis
    using False unfolding round_double_def Let_def e min_subnormal_def [symmetric] by simp
qed

text \<open>Rounding a number whose exponent is known.\<close>

lemma round_double_eval:
  assumes "power_int 2 e \<le> \<bar>x\<bar>" and "\<bar>x\<bar> < power_int 2 (e + 1)" and "- 1022 \<le> e"
  shows "round_double x =
     (let y = of_int (round_even (x / power_int 2 (e - 52))) * power_int 2 (e - 52)
      in if \<bar>y\<bar> \<ge> 2 ^ 1024 then (if x < 0 then NegInf else PosInf) else Fin y)"
proof -
  have "(0::real) < power_int 2 e" by (rule zero_less_power_int) simp
  then have p: "0 < \<bar>x\<bar>" using assms(1) by linarith
  then have x0: "x \<noteq> 0" by simp
  have "(2::real) powr (of_int e) \<le> \<bar>x\<bar> \<and> \<bar>x\<bar> < 2 powr (of_int (e + 1))"
    using assms(1,2) by (simp only: powr_real_of_int' [of 2, simplified])
  then have "\<lfloor>log 2 \<bar>x\<bar>\<rfloor> = e"
    using floor_log_eq_powr_iff [OF p, of 2 e] by simp
  then have "max \<lfloor>log 2 \<bar>x\<bar>\<rfloor> (- 1022) = e" using assms(3) by simp
  then show ?thesis using x0 unfolding round_double_def Let_def by simp
qed

text \<open>
  The numbers of the examples. The small integers are binary64 numbers. \<open>3 / 5\<close> and
  \<open>24 / 25\<close> are not: the quotients are rounded, and so is the sum of the first with 1,
  a tie that goes to the even neighbour. The scores that come out are the binary64
  numbers written \<open>0.8\<close> and \<open>0.98\<close>.
\<close>

lemma sqrt_25: "sqrt 25 = 5"
  by (rule real_sqrt_unique) simp_all

lemma example_rounding:
  "round_double 1 = Fin 1" "round_double 2 = Fin 2" "round_double 3 = Fin 3"
  "round_double 5 = Fin 5" "round_double 9 = Fin 9" "round_double 12 = Fin 12"
  "round_double 16 = Fin 16" "round_double 24 = Fin 24" "round_double 25 = Fin 25"
  using round_double_int [of 1] round_double_int [of 2] round_double_int [of 3]
    round_double_int [of 5] round_double_int [of 9] round_double_int [of 12]
    round_double_int [of 16] round_double_int [of 24] round_double_int [of 25]
  by simp_all

lemma example_rounding_fifths:
  "round_double (3 / 5) = Fin (5404319552844595 / 9007199254740992)"
  "round_double (14411518807585587 / 9007199254740992)
     = Fin (3602879701896397 / 2251799813685248)"
  "round_double (3602879701896397 / 4503599627370496)
     = Fin (3602879701896397 / 4503599627370496)"
  using round_double_eval [of "- 1" "3 / 5"]
    round_double_eval [of 0 "14411518807585587 / 9007199254740992"]
    round_double_eval [of "- 1" "3602879701896397 / 4503599627370496"]
  by (simp_all add: round_even_def Let_def power_int_minus)

lemma example_rounding_near:
  "round_double (24 / 25) = Fin (1080863910568919 / 1125899906842624)"
  "round_double (2206763817411543 / 1125899906842624)
     = Fin (2206763817411543 / 1125899906842624)"
  "round_double (2206763817411543 / 2251799813685248)
     = Fin (2206763817411543 / 2251799813685248)"
  "round_double (45035996273705 / 2251799813685248)
     = Fin (45035996273705 / 2251799813685248)"
  "round_double (- (45035996273705 / 2251799813685248))
     = Fin (- (45035996273705 / 2251799813685248))"
  using round_double_eval [of "- 1" "24 / 25"]
    round_double_eval [of 0 "2206763817411543 / 1125899906842624"]
    round_double_eval [of "- 1" "2206763817411543 / 2251799813685248"]
    round_double_eval [of "- 6" "45035996273705 / 2251799813685248"]
    round_double_eval [of "- 6" "- (45035996273705 / 2251799813685248)"]
  by (simp_all add: round_even_def Let_def power_int_minus)

subsection \<open>Insertion: what is dropped, and the length check\<close>

lemma removeDocsLRU_training: "trainingMode s \<Longrightarrow> removeDocsLRU H s = Some s"
  by (simp add: removeDocsLRU_def)

lemma isNewDocument_iff:
  "isNewDocument s (map doc_text (idb s)) doc \<longleftrightarrow>
     \<not> (trim (doc_text doc) = [] \<or> doc_text doc \<in> doc_text ` set (documents s)
        \<or> doc_text doc \<in> doc_text ` set (idb s))"
  by (auto simp: isNewDocument_def list_ex_iff image_iff)

text \<open>
  Claim C9. \<open>addTexts\<close> with \<open>texts\<close> and \<open>metadatas\<close> of different lengths throws the
  error of the length check, and the store is the one before the call: no document is
  inserted, the provider is not called and nothing is saved.
\<close>

theorem addTexts_length_mismatch:
  "length texts \<noteq> length metadatas \<Longrightarrow>
   addTexts H now s texts metadatas =
     Some (s, Inl (Error ''The lengths of texts and metadata arrays must match.''))"
  by (simp add: addTexts_def)

theorem addTexts_length_mismatch_witness:
  "length [''a'', ''b''] \<noteq> length [''m1''] \<and>
   addTexts example_helpers (\<lambda>i. 0) (example_store [] True) [''a'', ''b''] [''m1''] =
     Some (example_store [] True,
           Inl (Error ''The lengths of texts and metadata arrays must match.''))"
  using addTexts_length_mismatch [of "[''a'', ''b'']" "[''m1'']" example_helpers "\<lambda>i. 0"
      "example_store [] True"]
  by simp

text \<open>
  Claim C4, amended. A batch in which every candidate has an empty or whitespace-only
  text, a text of a document in memory or a text of a record of the backend leaves the
  store as it was: the log of provider calls, the count of saves and the backend are
  unchanged. On a store whose database is open \<open>addDocuments\<close> returns the empty array;
  on a store whose database was never opened it throws, at the read of the backend.
\<close>

theorem addDocuments_all_dropped:
  assumes "\<forall>doc \<in> set docs. trim (doc_text doc) = []
           \<or> doc_text doc \<in> doc_text ` set (documents s)
           \<or> doc_text doc \<in> doc_text ` set (idb s)"
  shows "\<exists>s'. addDocuments H s docs = Some (s', if db_open s then Inr [] else Inl TypeError)
           \<and> s' = s
           \<and> embedLog s' = embedLog s \<and> saveCount s' = saveCount s \<and> idb s' = idb s"
proof -
  have "filter (isNewDocument s (map doc_text (idb s))) docs = []"
    using assms by (simp add: filter_empty_conv isNewDocument_iff)
  then show ?thesis by (simp add: addDocuments_def)
qed

lemma trim_spaces: "trim ''  '' = []" "trim [CHR 0xA0, CHR 0x09] = []"
  by (simp_all add: trim_def is_space_def)

theorem addDocuments_all_dropped_witness:
  "addDocuments example_helpers
     ((example_store [example_doc ''hello'' 1] False)\<lparr>idb := [example_doc ''old'' 0]\<rparr>)
     [example_doc ''hello'' 2, example_doc ''  '' 3, example_doc ''old'' 4,
      example_doc [CHR 0xA0, CHR 0x09] 5] =
   Some ((example_store [example_doc ''hello'' 1] False)\<lparr>idb := [example_doc ''old'' 0]\<rparr>,
         Inr [])"
proof -
  let ?s = "(example_store [example_doc ''hello'' 1] False)\<lparr>idb := [example_doc ''old'' 0]\<rparr>"
  have a: "db_open ?s" by (simp add: example_store_def)
  have b: "\<forall>doc \<in> set [example_doc ''hello'' 2, example_doc ''  '' 3, example_doc ''old'' 4,
                       example_doc [CHR 0xA0, CHR 0x09] 5].
      trim (doc_text doc) = [] \<or> doc_text doc \<in> doc_text ` set (documents ?s)
      \<or> doc_text doc \<in> doc_text ` set (idb ?s)"
    by (simp add: example_store_def example_doc_def trim_spaces)
  from addDocuments_all_dropped [OF b, of example_helpers] a show ?thesis by auto
qed

text \<open>
  Claim C4 as stated fails on a store made with neither an API key nor an embedding
  function: the constructor does not open the database, and a batch whose only
  candidate has a whitespace-only text does not return the empty array, it throws.
\<close>

theorem addDocuments_unconfigured_counterexample:
  "(case new_VectorStorage example_helpers
           \<lparr>opt_maxSizeInMB = None, opt_openAIApiKey = None, opt_embedTextsFn = None\<rparr> [] of
      Some s0 \<Rightarrow>
        trim (doc_text (example_doc ''  '' 0)) = []
        \<and> addDocuments example_helpers s0 [example_doc ''  '' 0] = Some (s0, Inl TypeError)
    | None \<Rightarrow> False)"
  by (simp add: new_VectorStorage_def addDocuments_def example_doc_def trim_spaces)

subsection \<open>Training mode\<close>

lemma addDocuments_training:
  assumes "trainingMode s"
  shows "\<exists>s' r. addDocuments H s docs = Some (s', r) \<and> trainingMode s' \<and>
     (case r of Inl e \<Rightarrow> documents s' = documents s
              | Inr new \<Rightarrow> documents s' = documents s @ new)"
  using assms
  by (auto simp: addDocuments_def Let_def removeDocsLRU_def saveToIndexDbStorage_def
      callEmbed_def split: prod.splits sum.splits option.splits)

lemma similaritySearch_training:
  assumes "trainingMode s"
  shows "\<exists>s' r. similaritySearch H s p = Some (s', r) \<and> trainingMode s' \<and>
     documents s' = documents s"
  using assms
  by (auto simp: similaritySearch_def Let_def removeDocsLRU_def saveToIndexDbStorage_def
      embedText_def callEmbed_def split: prod.splits sum.splits option.splits list.splits)

lemma perform_training:
  assumes "trainingMode s" and "c \<noteq> EndTrainingMode"
  shows "\<exists>s'. perform H s c = Some s' \<and> trainingMode s'"
proof (cases c)
  case (AddText tx md now)
  obtain s' r where "addDocuments H s [\<lparr>hits = None, metadata = md, doc_text = tx, timestamp = now,
                  vector = Some [], vectorMag = Some (Fin 0)\<rparr>] = Some (s', r)" "trainingMode s'"
    using addDocuments_training [OF assms(1)] by blast
  then show ?thesis using AddText by (cases r) (simp_all add: addText_def)
next
  case (AddTexts texts mds now)
  show ?thesis
  proof (cases "length texts = length mds")
    case True
    obtain s' r where "addDocuments H s (map (\<lambda>(txt, index).
                      \<lparr>hits = None, metadata = mds ! index, doc_text = txt,
                       timestamp = now index, vector = Some [], vectorMag = Some (Fin 0)\<rparr>)
                    (zip texts [0..<length texts])) = Some (s', r)" "trainingMode s'"
      using addDocuments_training [OF assms(1)] by blast
    then show ?thesis using AddTexts True by (simp add: addTexts_def)
  next
    case False
    then show ?thesis using AddTexts assms(1) by (simp add: addTexts_def)
  qed
next
  case (SimilaritySearch p)
  then show ?thesis using similaritySearch_training [OF assms(1), of H p] by auto
next
  case (DeleteDocumentsByMetadata v)
  then show ?thesis using assms(1)
    by (simp add: deleteDocumentsByMetadata_def saveToIndexDbStorage_def)
next
  case StartTrainingMode
  then show ?thesis by (simp add: startTrainingMode_def)
next
  case EndTrainingMode
  then show ?thesis using assms(2) by simp
qed

lemma run_training:
  "trainingMode s \<Longrightarrow> EndTrainingMode \<notin> set ops \<Longrightarrow>
   \<exists>s'. run H s ops = Some s' \<and> trainingMode s'"
proof (induction ops arbitrary: s)
  case Nil
  then show ?case by simp
next
  case (Cons c ops)
  then obtain s1 where s1: "perform H s c = Some s1" "trainingMode s1"
    using perform_training [of s c H] by auto
  with Cons show ?case by simp
qed

lemma new_VectorStorage_training:
  "\<exists>s0. new_VectorStorage H options backend = Some s0 \<and> trainingMode s0
     \<and> documents s0 =
         (if (opt_openAIApiKey options = None \<or> opt_openAIApiKey options = Some [])
             \<and> opt_embedTextsFn options = None
          then [] else backend)"
  by (simp add: new_VectorStorage_def Let_def loadFromIndexDbStorage_def removeDocsLRU_def)

text \<open>
  Claim C3. The constructor always returns, with the training flag set: the eviction pass
  of the initial load removes nothing, so a configured store holds every record of the
  backend whatever the ceiling. After any calls that do not include
  \<open>endTrainingMode\<close> the flag is still set, every call has returned, the eviction pass
  is the identity, an insertion appends what it inserts and removes nothing, and a
  search leaves the documents as they are.
\<close>

theorem training_mode_from_construction:
  "\<exists>s0. new_VectorStorage H options backend = Some s0 \<and> trainingMode s0
     \<and> documents s0 =
         (if (opt_openAIApiKey options = None \<or> opt_openAIApiKey options = Some [])
             \<and> opt_embedTextsFn options = None
          then [] else backend)
     \<and> (\<forall>ops. EndTrainingMode \<notin> set ops \<longrightarrow>
           (\<exists>s. run H s0 ops = Some s \<and> trainingMode s \<and> removeDocsLRU H s = Some s
              \<and> (\<forall>docs. \<exists>s' r. addDocuments H s docs = Some (s', r)
                     \<and> (case r of Inl e \<Rightarrow> documents s' = documents s
                                  | Inr new \<Rightarrow> documents s' = documents s @ new))
              \<and> (\<forall>p. \<exists>s' r. similaritySearch H s p = Some (s', r)
                     \<and> documents s' = documents s)))"
proof -
  obtain s0 where s0: "new_VectorStorage H options backend = Some s0" "trainingMode s0"
    "documents s0 =
         (if (opt_openAIApiKey options = None \<or> opt_openAIApiKey options = Some [])
             \<and> opt_embedTextsFn options = None
          then [] else backend)"
    using new_VectorStorage_training by blast
  have "\<exists>s. run H s0 ops = Some s \<and> trainingMode s \<and> removeDocsLRU H s = Some s
              \<and> (\<forall>docs. \<exists>s' r. addDocuments H s docs = Some (s', r)
                     \<and> (case r of Inl e \<Rightarrow> documents s' = documents s
                                  | Inr new \<Rightarrow> documents s' = documents s @ new))
              \<and> (\<forall>p. \<exists>s' r. similaritySearch H s p = Some (s', r)
                     \<and> documents s' = documents s)"
    if ops: "EndTrainingMode \<notin> set ops" for ops
  proof -
    obtain s where s: "run H s0 ops = Some s" "trainingMode s"
      using run_training [OF s0(2) ops] by blast
    have a: "\<exists>s' r. addDocuments H s docs = Some (s', r)
                     \<and> (case r of Inl e \<Rightarrow> documents s' = documents s
                                  | Inr new \<Rightarrow> documents s' = documents s @ new)" for docs
      using addDocuments_training [OF s(2), of H docs] by blast
    have b: "\<exists>s' r. similaritySearch H s p = Some (s', r) \<and> documents s' = documents s" for p
      using similaritySearch_training [OF s(2), of H p] by blast
    show ?thesis using s a b by (simp add: removeDocsLRU_def)
  qed
  with s0 show ?thesis by blast
qed

theorem training_mode_from_construction_witness:
  "\<exists>s0. new_VectorStorage example_helpers example_options
           [example_doc ''a'' 1, example_doc ''b'' 2] = Some s0
     \<and> trainingMode s0
     \<and> documents s0 = [example_doc ''a'' 1, example_doc ''b'' 2]
     \<and> getObjectSizeInMB example_helpers (documents s0) > maxSizeInMB s0
     \<and> (\<exists>s. run example_helpers s0 [AddText ''c'' ''m'' 3, StartTrainingMode] = Some s
            \<and> trainingMode s \<and> removeDocsLRU example_helpers s = Some s)"
proof -
  let ?b = "[example_doc ''a'' 1, example_doc ''b'' 2]"
  obtain s0 where s0: "new_VectorStorage example_helpers example_options ?b = Some s0"
    "trainingMode s0" "documents s0 = ?b"
    and ops: "\<forall>ops. EndTrainingMode \<notin> set ops \<longrightarrow>
           (\<exists>s. run example_helpers s0 ops = Some s \<and> trainingMode s
              \<and> removeDocsLRU example_helpers s = Some s
              \<and> (\<forall>docs. \<exists>s' r. addDocuments example_helpers s docs = Some (s', r)
                     \<and> (case r of Inl e \<Rightarrow> documents s' = documents s
                                  | Inr new \<Rightarrow> documents s' = documents s @ new))
              \<and> (\<forall>p. \<exists>s' r. similaritySearch example_helpers s p = Some (s', r)
                     \<and> documents s' = documents s))"
    using training_mode_from_construction [of example_helpers example_options ?b]
    by (auto simp: example_options_def)
  have m: "maxSizeInMB s0 = 1"
    using s0(1)
    by (auto simp: new_VectorStorage_def Let_def loadFromIndexDbStorage_def removeDocsLRU_def
        example_options_def)
  have "EndTrainingMode \<notin> set [AddText ''c'' ''m'' 3, StartTrainingMode :: (string, unit) operation]"
    by simp
  with ops obtain s where "run example_helpers s0 [AddText ''c'' ''m'' 3, StartTrainingMode] = Some s"
    "trainingMode s" "removeDocsLRU example_helpers s = Some s"
    by blast
  with s0 m show ?thesis by (auto simp: example_helpers_def)
qed

subsection \<open>Eviction\<close>

lemma mset_array_insert: "mset (array_insert gt x ys) = add_mset x (mset ys)"
  by (induction ys) auto

lemma set_array_insert: "set (array_insert gt x ys) = insert x (set ys)"
  by (induction ys) auto

lemma array_sort_Cons: "array_sort gt (x # xs) = array_insert gt x (array_sort gt xs)"
  by (simp add: array_sort_def)

lemma array_sort_Nil: "array_sort gt [] = []"
  by (simp add: array_sort_def)

lemma mset_array_sort: "mset (array_sort gt xs) = mset xs"
  by (induction xs) (simp_all add: array_sort_Nil array_sort_Cons mset_array_insert)

lemma set_array_sort: "set (array_sort gt xs) = set xs"
  by (induction xs) (simp_all add: array_sort_Nil array_sort_Cons set_array_insert)

lemma length_array_sort: "length (array_sort gt xs) = length xs"
  using mset_array_sort [of gt xs] by (metis size_mset)

lemma filter_array_insert:
  assumes "\<And>y. P x \<Longrightarrow> P y \<Longrightarrow> \<not> gt x y"
  shows "filter P (array_insert gt x ys) = (if P x then x # filter P ys else filter P ys)"
  using assms by (induction ys) auto

lemma filter_array_sort:
  assumes "\<And>a b. P a \<Longrightarrow> P b \<Longrightarrow> \<not> gt a b"
  shows "filter P (array_sort gt xs) = filter P xs"
proof (induction xs)
  case Nil
  then show ?case by (simp add: array_sort_Nil)
next
  case (Cons x xs)
  then show ?case using assms by (simp add: array_sort_Cons filter_array_insert)
qed

lemma sorted_wrt_array_insert:
  assumes "sorted_wrt (\<lambda>a b. \<not> gt a b) ys"
    and asym: "\<And>y. y \<in> set ys \<Longrightarrow> gt x y \<Longrightarrow> \<not> gt y x"
    and trans: "\<And>y z. y \<in> set ys \<Longrightarrow> z \<in> set ys \<Longrightarrow> \<not> gt x y \<Longrightarrow> \<not> gt y z \<Longrightarrow> \<not> gt x z"
  shows "sorted_wrt (\<lambda>a b. \<not> gt a b) (array_insert gt x ys)"
  using assms
proof (induction ys)
  case Nil
  then show ?case by simp
next
  case (Cons y ys)
  show ?case
  proof (cases "gt x y")
    case True
    have s: "sorted_wrt (\<lambda>a b. \<not> gt a b) ys" using Cons.prems(1) by simp
    have "sorted_wrt (\<lambda>a b. \<not> gt a b) (array_insert gt x ys)"
    proof (rule Cons.IH [OF s])
      fix y' assume "y' \<in> set ys" "gt x y'"
      then show "\<not> gt y' x" using Cons.prems(2) [of y'] by simp
    next
      fix y' z assume "y' \<in> set ys" "z \<in> set ys" "\<not> gt x y'" "\<not> gt y' z"
      then show "\<not> gt x z" using Cons.prems(3) [of y' z] by simp
    qed
    moreover have "\<not> gt y z" if "z \<in> set (array_insert gt x ys)" for z
    proof -
      from that have "z = x \<or> z \<in> set ys" by (simp add: set_array_insert)
      then show ?thesis
      proof
        assume "z = x"
        then show ?thesis using Cons.prems(2) [of y] True by simp
      next
        assume "z \<in> set ys"
        then show ?thesis using Cons.prems(1) by simp
      qed
    qed
    ultimately show ?thesis using True by simp
  next
    case False
    have "\<not> gt x z" if "z \<in> set ys" for z
    proof -
      have "\<not> gt y z" using that Cons.prems(1) by simp
      then show ?thesis using Cons.prems(3) [of y z] False that by simp
    qed
    then show ?thesis using False Cons.prems(1) by simp
  qed
qed

lemma sorted_wrt_array_sort:
  assumes "\<forall>a\<in>set xs. \<forall>b\<in>set xs. gt a b \<longrightarrow> \<not> gt b a"
    and "\<forall>a\<in>set xs. \<forall>b\<in>set xs. \<forall>c\<in>set xs. \<not> gt a b \<longrightarrow> \<not> gt b c \<longrightarrow> \<not> gt a c"
  shows "sorted_wrt (\<lambda>a b. \<not> gt a b) (array_sort gt xs)"
  using assms
proof (induction xs)
  case Nil
  show ?case by (simp add: array_sort_Nil)
next
  case (Cons x xs)
  have p1: "\<forall>a\<in>set xs. \<forall>b\<in>set xs. gt a b \<longrightarrow> \<not> gt b a"
    using Cons.prems(1) by (meson list.set_intros(2))
  have p2: "\<forall>a\<in>set xs. \<forall>b\<in>set xs. \<forall>c\<in>set xs. \<not> gt a b \<longrightarrow> \<not> gt b c \<longrightarrow> \<not> gt a c"
    using Cons.prems(2) by (meson list.set_intros(2))
  have s: "sorted_wrt (\<lambda>a b. \<not> gt a b) (array_sort gt xs)"
    using p1 p2 by (rule Cons.IH)
  have a: "\<not> gt y x" if "y \<in> set (array_sort gt xs)" "gt x y" for y
    using that Cons.prems(1) unfolding set_array_sort by (meson list.set_intros)
  have t: "\<not> gt x z" if "y \<in> set (array_sort gt xs)" "z \<in> set (array_sort gt xs)"
      "\<not> gt x y" "\<not> gt y z" for y z
    using that Cons.prems(2) unfolding set_array_sort by (meson list.set_intros)
  show ?case
    unfolding array_sort_Cons
  proof (rule sorted_wrt_array_insert [OF s])
    fix y assume "y \<in> set (array_sort gt xs)" "gt x y"
    then show "\<not> gt y x" by (rule a)
  next
    fix y z assume "y \<in> set (array_sort gt xs)" "z \<in> set (array_sort gt xs)"
      "\<not> gt x y" "\<not> gt y z"
    then show "\<not> gt x z" by (rule t)
  qed
qed

lemma shiftLoop_drop:
  "sizeInMB (drop n ds) \<le> maxSize \<Longrightarrow> \<forall>m<n. sizeInMB (drop m ds) > maxSize \<Longrightarrow>
   shiftLoop sizeInMB maxSize ds = Some (drop n ds)"
proof (induction n arbitrary: ds)
  case 0
  then show ?case by (subst shiftLoop.simps) simp
next
  case (Suc n)
  have over: "sizeInMB ds > maxSize" using Suc.prems(2) by force
  have "shiftLoop sizeInMB maxSize (tl ds) = Some (drop n (tl ds))"
  proof (rule Suc.IH)
    show "sizeInMB (drop n (tl ds)) \<le> maxSize" using Suc.prems(1) by (simp add: drop_Suc)
    show "\<forall>m<n. maxSize < sizeInMB (drop m (tl ds))"
      using Suc.prems(2) by (metis Suc_less_eq drop_Suc)
  qed
  then show ?case using over by (subst shiftLoop.simps) (simp add: drop_Suc)
qed

lemma shiftLoop_returns:
  assumes "sizeInMB [] \<le> maxSize"
  shows "\<exists>n\<le>length ds. shiftLoop sizeInMB maxSize ds = Some (drop n ds)
           \<and> sizeInMB (drop n ds) \<le> maxSize
           \<and> (\<forall>m<n. sizeInMB (drop m ds) > maxSize)"
proof -
  define n where "n = (LEAST n. sizeInMB (drop n ds) \<le> maxSize)"
  have ex: "sizeInMB (drop (length ds) ds) \<le> maxSize" using assms by simp
  have a: "sizeInMB (drop n ds) \<le> maxSize" unfolding n_def using ex by (rule LeastI)
  have b: "\<forall>m<n. sizeInMB (drop m ds) > maxSize"
    unfolding n_def using not_less_Least by force
  have c: "n \<le> length ds" unfolding n_def using ex by (rule Least_le)
  show ?thesis using shiftLoop_drop [OF a b] a b c by blast
qed

lemma shiftLoop_Some_fits:
  assumes "shiftLoop sizeInMB maxSize ds = Some r"
  shows "sizeInMB r \<le> maxSize"
proof (rule shiftLoop.raw_induct [where P = "\<lambda>sz mx ds r. sz r \<le> mx", OF _ assms])
  fix f :: "('a list \<Rightarrow> real) \<Rightarrow> real \<Rightarrow> 'a list \<Rightarrow> 'a list option"
    and sz mx ds r
  assume IH: "\<And>sz mx ds r. f sz mx ds = Some r \<Longrightarrow> sz r \<le> mx"
    and body: "(if sz ds > mx then f sz mx (tl ds) else Some ds) = Some r"
  show "sz r \<le> mx"
  proof (cases "sz ds > mx")
    case True
    then have "f sz mx (tl ds) = Some r" using body by simp
    then show ?thesis by (rule IH)
  next
    case False
    then show ?thesis using body by simp
  qed
qed

lemma compareLRU_pos: "compareLRU a b > 0 \<longleftrightarrow> \<not> lru_le a b"
  by (auto simp: compareLRU_def lru_le_def Let_def)

lemma sorted_LRU: "sorted_wrt lru_le (array_sort (\<lambda>a b. compareLRU a b > 0) ds)"
proof -
  have "sorted_wrt (\<lambda>a b. \<not> compareLRU a b > 0) (array_sort (\<lambda>a b. compareLRU a b > 0) ds)"
    by (rule sorted_wrt_array_sort) (auto simp: compareLRU_pos lru_le_def)
  then show ?thesis by (simp add: compareLRU_pos)
qed

lemma stable_LRU:
  "filter (\<lambda>d. hits0 d = h \<and> timestamp d = t) (array_sort (\<lambda>a b. compareLRU a b > 0) ds) =
   filter (\<lambda>d. hits0 d = h \<and> timestamp d = t) ds"
  by (rule filter_array_sort) (simp add: compareLRU_def)

lemma removeDocsLRU_evicts:
  assumes "\<not> trainingMode s" and "getObjectSizeInMB H [] \<le> maxSizeInMB s"
    and "getObjectSizeInMB H (documents s) > maxSizeInMB s"
  shows "\<exists>n\<le>length (documents s).
           removeDocsLRU H s =
             Some (s\<lparr>documents := drop n (array_sort (\<lambda>a b. compareLRU a b > 0) (documents s))\<rparr>)
           \<and> getObjectSizeInMB H (drop n (array_sort (\<lambda>a b. compareLRU a b > 0) (documents s)))
                \<le> maxSizeInMB s
           \<and> (\<forall>m<n. getObjectSizeInMB H
                         (drop m (array_sort (\<lambda>a b. compareLRU a b > 0) (documents s)))
                       > maxSizeInMB s)"
proof -
  let ?sorted = "array_sort (\<lambda>a b. compareLRU a b > 0) (documents s)"
  obtain n where n: "n \<le> length ?sorted"
    "shiftLoop (getObjectSizeInMB H) (maxSizeInMB s) ?sorted = Some (drop n ?sorted)"
    "getObjectSizeInMB H (drop n ?sorted) \<le> maxSizeInMB s"
    "\<forall>m<n. getObjectSizeInMB H (drop m ?sorted) > maxSizeInMB s"
    using shiftLoop_returns [of "getObjectSizeInMB H" "maxSizeInMB s" ?sorted] assms(2) by blast
  have "removeDocsLRU H s = Some (s\<lparr>documents := drop n ?sorted\<rparr>)"
    using assms(1,3) n(2) by (simp add: removeDocsLRU_def)
  with n show ?thesis by (auto simp: length_array_sort)
qed

lemma removeDocsLRU_within:
  "getObjectSizeInMB H (documents s) \<le> maxSizeInMB s \<Longrightarrow> removeDocsLRU H s = Some s"
  by (simp add: removeDocsLRU_def)

text \<open>
  Claim C7, amended. The eviction pass returns the store as it is when the serialized
  size of the documents is at or under the ceiling, and when training mode is on. When
  training mode is off, the
  empty array is within the ceiling and the documents are over it, the pass returns; the
  documents it leaves are those of the stable sort by ascending \<open>(hits, timestamp)\<close>
  (a permutation of the documents, in that order, documents of equal hits and timestamp
  in the order they had) without its first \<open>n\<close> elements, where \<open>n\<close> is the least
  number of removals from the front that brings the size to the ceiling or under.
\<close>

theorem removeDocsLRU_policy:
  "(getObjectSizeInMB H (documents s) \<le> maxSizeInMB s \<longrightarrow> removeDocsLRU H s = Some s)
   \<and> (trainingMode s \<longrightarrow> removeDocsLRU H s = Some s)
   \<and> (\<not> trainingMode s \<and> getObjectSizeInMB H [] \<le> maxSizeInMB s
        \<and> getObjectSizeInMB H (documents s) > maxSizeInMB s \<longrightarrow>
      (\<exists>sorted n.
          mset sorted = mset (documents s) \<and> sorted_wrt lru_le sorted
          \<and> (\<forall>h t. filter (\<lambda>d. hits0 d = h \<and> timestamp d = t) sorted =
                     filter (\<lambda>d. hits0 d = h \<and> timestamp d = t) (documents s))
          \<and> n \<le> length sorted
          \<and> removeDocsLRU H s = Some (s\<lparr>documents := drop n sorted\<rparr>)
          \<and> getObjectSizeInMB H (drop n sorted) \<le> maxSizeInMB s
          \<and> (\<forall>m<n. getObjectSizeInMB H (drop m sorted) > maxSizeInMB s)))"
proof (intro conjI impI)
  assume "getObjectSizeInMB H (documents s) \<le> maxSizeInMB s"
  then show "removeDocsLRU H s = Some s" by (rule removeDocsLRU_within)
next
  assume "trainingMode s"
  then show "removeDocsLRU H s = Some s" by (rule removeDocsLRU_training)
next
  assume a: "\<not> trainingMode s \<and> getObjectSizeInMB H [] \<le> maxSizeInMB s
        \<and> getObjectSizeInMB H (documents s) > maxSizeInMB s"
  let ?sorted = "array_sort (\<lambda>a b. compareLRU a b > 0) (documents s)"
  obtain n where n: "n \<le> length (documents s)"
    "removeDocsLRU H s = Some (s\<lparr>documents := drop n ?sorted\<rparr>)"
    "getObjectSizeInMB H (drop n ?sorted) \<le> maxSizeInMB s"
    "\<forall>m<n. getObjectSizeInMB H (drop m ?sorted) > maxSizeInMB s"
    using removeDocsLRU_evicts [of s H] a by blast
  have "mset ?sorted = mset (documents s)" by (rule mset_array_sort)
  moreover have "sorted_wrt lru_le ?sorted" by (rule sorted_LRU)
  moreover have "\<forall>h t. filter (\<lambda>d. hits0 d = h \<and> timestamp d = t) ?sorted =
                     filter (\<lambda>d. hits0 d = h \<and> timestamp d = t) (documents s)"
    by (simp add: stable_LRU)
  moreover have "n \<le> length ?sorted" using n(1) by (simp add: length_array_sort)
  ultimately show "\<exists>sorted n.
          mset sorted = mset (documents s) \<and> sorted_wrt lru_le sorted
          \<and> (\<forall>h t. filter (\<lambda>d. hits0 d = h \<and> timestamp d = t) sorted =
                     filter (\<lambda>d. hits0 d = h \<and> timestamp d = t) (documents s))
          \<and> n \<le> length sorted
          \<and> removeDocsLRU H s = Some (s\<lparr>documents := drop n sorted\<rparr>)
          \<and> getObjectSizeInMB H (drop n sorted) \<le> maxSizeInMB s
          \<and> (\<forall>m<n. getObjectSizeInMB H (drop m sorted) > maxSizeInMB s)"
    using n(2,3,4) by blast
qed

lemma example_sort:
  "array_sort (\<lambda>a b. compareLRU a b > 0)
     [example_doc ''a'' 5, example_doc ''b'' 3, (example_doc ''c'' 1)\<lparr>hits := Some 2\<rparr>] =
   [example_doc ''b'' 3, example_doc ''a'' 5, (example_doc ''c'' 1)\<lparr>hits := Some 2\<rparr>]"
  by (simp add: array_sort_def compareLRU_def hits0_def example_doc_def)

text \<open>
  Claim C7 as stated fails in training mode: two documents of one megabyte each under a
  ceiling of one megabyte, and the pass removes nothing.
\<close>

theorem removeDocsLRU_training_counterexample:
  "getObjectSizeInMB example_helpers
     (documents (example_store [example_doc ''a'' 5, example_doc ''b'' 3] True))
     > maxSizeInMB (example_store [example_doc ''a'' 5, example_doc ''b'' 3] True)
   \<and> removeDocsLRU example_helpers (example_store [example_doc ''a'' 5, example_doc ''b'' 3] True)
       = Some (example_store [example_doc ''a'' 5, example_doc ''b'' 3] True)"
  by (simp add: removeDocsLRU_def example_store_def example_helpers_def)

theorem removeDocsLRU_policy_witness:
  "getObjectSizeInMB example_helpers (documents (example_store [example_doc ''a'' 5] False))
     \<le> maxSizeInMB (example_store [example_doc ''a'' 5] False)
   \<and> removeDocsLRU example_helpers (example_store [example_doc ''a'' 5] False)
       = Some (example_store [example_doc ''a'' 5] False)
   \<and> trainingMode (example_store [example_doc ''a'' 5, example_doc ''b'' 3] True)
   \<and> removeDocsLRU example_helpers (example_store [example_doc ''a'' 5, example_doc ''b'' 3] True)
       = Some (example_store [example_doc ''a'' 5, example_doc ''b'' 3] True)
   \<and> \<not> trainingMode (example_store
        [example_doc ''a'' 5, example_doc ''b'' 3, (example_doc ''c'' 1)\<lparr>hits := Some 2\<rparr>] False)
   \<and> removeDocsLRU example_helpers
        (example_store
          [example_doc ''a'' 5, example_doc ''b'' 3, (example_doc ''c'' 1)\<lparr>hits := Some 2\<rparr>] False)
      = Some ((example_store
          [example_doc ''a'' 5, example_doc ''b'' 3, (example_doc ''c'' 1)\<lparr>hits := Some 2\<rparr>] False)
            \<lparr>documents := [(example_doc ''c'' 1)\<lparr>hits := Some 2\<rparr>]\<rparr>)"
proof -
  let ?ds = "[example_doc ''a'' 5, example_doc ''b'' 3, (example_doc ''c'' 1)\<lparr>hits := Some 2\<rparr>]"
  let ?s = "example_store ?ds False"
  have pre: "\<not> trainingMode ?s \<and> getObjectSizeInMB example_helpers [] \<le> maxSizeInMB ?s
        \<and> getObjectSizeInMB example_helpers (documents ?s) > maxSizeInMB ?s"
    by (simp add: example_store_def example_helpers_def)
  then obtain sorted n where
    "removeDocsLRU example_helpers ?s = Some (?s\<lparr>documents := drop n sorted\<rparr>)"
    using removeDocsLRU_policy [of example_helpers ?s] by blast
  then have ret: "removeDocsLRU example_helpers ?s \<noteq> None" by simp
  have ev: "removeDocsLRU example_helpers ?s =
      Some (?s\<lparr>documents := [(example_doc ''c'' 1)\<lparr>hits := Some 2\<rparr>]\<rparr>)"
  proof -
    let ?sorted = "[example_doc ''b'' 3, example_doc ''a'' 5, (example_doc ''c'' 1)\<lparr>hits := Some 2\<rparr>]"
    have "shiftLoop (\<lambda>ds. real (length ds)) 1 ?sorted = Some (drop 2 ?sorted)"
      by (rule shiftLoop_drop) (simp_all add: numeral_2_eq_2 less_Suc_eq)
    then have l: "shiftLoop (getObjectSizeInMB example_helpers) (maxSizeInMB ?s) ?sorted
        = Some [(example_doc ''c'' 1)\<lparr>hits := Some 2\<rparr>]"
      by (simp add: example_store_def example_helpers_def)
    have t: "\<not> trainingMode ?s" "getObjectSizeInMB example_helpers (documents ?s) > maxSizeInMB ?s"
      "documents ?s = ?ds"
      using pre by (simp_all add: example_store_def)
    show ?thesis
      unfolding removeDocsLRU_def using t l by (simp add: example_sort)
  qed
  have three: "\<not> trainingMode ?s \<and> removeDocsLRU example_helpers ?s =
      Some (?s\<lparr>documents := [(example_doc ''c'' 1)\<lparr>hits := Some 2\<rparr>]\<rparr>)"
    using pre ev ret by blast
  have w: "getObjectSizeInMB example_helpers (documents (example_store [example_doc ''a'' 5] False))
     \<le> maxSizeInMB (example_store [example_doc ''a'' 5] False)"
    by (simp add: example_store_def example_helpers_def)
  then have one: "removeDocsLRU example_helpers (example_store [example_doc ''a'' 5] False)
       = Some (example_store [example_doc ''a'' 5] False)"
    using removeDocsLRU_policy [of example_helpers "example_store [example_doc ''a'' 5] False"]
    by blast
  have t: "trainingMode (example_store [example_doc ''a'' 5, example_doc ''b'' 3] True)"
    by (simp add: example_store_def)
  then have two: "removeDocsLRU example_helpers
         (example_store [example_doc ''a'' 5, example_doc ''b'' 3] True)
       = Some (example_store [example_doc ''a'' 5, example_doc ''b'' 3] True)"
    using removeDocsLRU_policy [of example_helpers
        "example_store [example_doc ''a'' 5, example_doc ''b'' 3] True"]
    by blast
  from w one t two three show ?thesis by blast
qed

subsection \<open>Insertion and the ceiling\<close>

lemma removeDocsLRU_returns:
  assumes "\<not> trainingMode s" and "getObjectSizeInMB H [] \<le> maxSizeInMB s"
  shows "\<exists>ds. removeDocsLRU H s = Some (s\<lparr>documents := ds\<rparr>)
           \<and> getObjectSizeInMB H ds \<le> maxSizeInMB s
           \<and> (ds = documents s
                \<or> (\<exists>sorted n. mset sorted = mset (documents s) \<and> sorted_wrt lru_le sorted
                       \<and> ds = drop n sorted))"
proof (cases "getObjectSizeInMB H (documents s) \<le> maxSizeInMB s")
  case True
  then have "removeDocsLRU H s = Some (s\<lparr>documents := documents s\<rparr>)"
    by (simp add: removeDocsLRU_within)
  with True show ?thesis by blast
next
  case False
  then obtain n where
    "removeDocsLRU H s =
       Some (s\<lparr>documents := drop n (array_sort (\<lambda>a b. compareLRU a b > 0) (documents s))\<rparr>)"
    "getObjectSizeInMB H (drop n (array_sort (\<lambda>a b. compareLRU a b > 0) (documents s)))
       \<le> maxSizeInMB s"
    using removeDocsLRU_evicts [OF assms] by auto
  then show ?thesis using mset_array_sort sorted_LRU by blast
qed

lemma removeDocsLRU_not_None:
  "\<not> trainingMode s \<Longrightarrow> getObjectSizeInMB H [] \<le> maxSizeInMB s \<Longrightarrow>
   removeDocsLRU H s \<noteq> None"
  using removeDocsLRU_returns [of s H] by auto

lemma addDocuments_inserted:
  assumes "addDocuments H s docs = Some (s', Inr new)" and "new \<noteq> []"
  shows "\<exists>vs s2.
      embedTextsFn s (map doc_text (filter (isNewDocument s (map doc_text (idb s))) docs)) = Inr vs
      \<and> assignVectors vs 0 (filter (isNewDocument s (map doc_text (idb s))) docs) = Inr new
      \<and> removeDocsLRU H
           (s\<lparr>embedLog := embedLog s
                  @ [map doc_text (filter (isNewDocument s (map doc_text (idb s))) docs)],
               documents := documents s @ new\<rparr>) = Some s2
      \<and> s' = saveToIndexDbStorage s2"
  using assms
  by (auto simp: addDocuments_def Let_def callEmbed_def
      split: if_splits sum.splits option.splits prod.splits)

text \<open>
  Claim C2, amended. On a store with training mode off whose ceiling admits the empty
  array, \<open>addDocuments\<close> returns, and when it has inserted at least one document the
  serialized size of the documents in memory is at or under the ceiling: they are the
  old documents followed by the new ones, or what is left of these once sorted
  ascending by \<open>(hits, timestamp)\<close> and shortened from the front.
\<close>

theorem addDocuments_within_ceiling:
  assumes "\<not> trainingMode s" and "getObjectSizeInMB H [] \<le> maxSizeInMB s"
  shows "\<exists>s' r. addDocuments H s docs = Some (s', r)
     \<and> (\<forall>new. r = Inr new \<and> new \<noteq> [] \<longrightarrow>
           getObjectSizeInMB H (documents s') \<le> maxSizeInMB s'
           \<and> (documents s' = documents s @ new
                \<or> (\<exists>sorted n. mset sorted = mset (documents s @ new)
                       \<and> sorted_wrt lru_le sorted \<and> documents s' = drop n sorted)))"
proof -
  have total: "\<exists>s' r. addDocuments H s docs = Some (s', r)"
  proof (cases "addDocuments H s docs")
    case None
    then show ?thesis
      using assms
      by (auto simp: addDocuments_def Let_def callEmbed_def removeDocsLRU_not_None
          split: if_splits sum.splits option.splits prod.splits)
  next
    case (Some a)
    then show ?thesis by (cases a) simp
  qed
  then obtain s' r where sr: "addDocuments H s docs = Some (s', r)" by blast
  have "getObjectSizeInMB H (documents s') \<le> maxSizeInMB s'
           \<and> (documents s' = documents s @ new
                \<or> (\<exists>sorted n. mset sorted = mset (documents s @ new)
                       \<and> sorted_wrt lru_le sorted \<and> documents s' = drop n sorted))"
    if "r = Inr new" "new \<noteq> []" for new
  proof -
    have sr': "addDocuments H s docs = Some (s', Inr new)" using sr that(1) by simp
    from addDocuments_inserted [OF sr' that(2)]
    obtain s2 where s2: "removeDocsLRU H
           (s\<lparr>embedLog := embedLog s
                  @ [map doc_text (filter (isNewDocument s (map doc_text (idb s))) docs)],
               documents := documents s @ new\<rparr>) = Some s2"
      "s' = saveToIndexDbStorage s2"
      by auto
    let ?s1 = "s\<lparr>embedLog := embedLog s
                  @ [map doc_text (filter (isNewDocument s (map doc_text (idb s))) docs)],
               documents := documents s @ new\<rparr>"
    obtain ds where ds: "removeDocsLRU H ?s1 = Some (?s1\<lparr>documents := ds\<rparr>)"
      "getObjectSizeInMB H ds \<le> maxSizeInMB ?s1"
      "ds = documents ?s1
         \<or> (\<exists>sorted n. mset sorted = mset (documents ?s1) \<and> sorted_wrt lru_le sorted
                \<and> ds = drop n sorted)"
      using removeDocsLRU_returns [of ?s1 H] assms by auto
    have "documents s' = ds" "maxSizeInMB s' = maxSizeInMB s"
      using s2 ds(1) by (auto simp: saveToIndexDbStorage_def)
    then show ?thesis using ds(2,3) by simp
  qed
  with sr show ?thesis by blast
qed

lemma example_trim: "trim ''a'' = ''a''" "trim ''b'' = ''b''"
  by (simp_all add: trim_def is_space_def)

lemma example_assign:
  "assignVectors [[Fin 3, Fin 4], [Fin 3, Fin 4]] 0 [example_doc ''a'' 0, example_doc ''b'' 1] =
     Inr [(example_doc ''a'' 0)\<lparr>vectorMag := Some (Fin 5)\<rparr>,
          (example_doc ''b'' 1)\<lparr>vectorMag := Some (Fin 5)\<rparr>]"
  by (simp add: calcVectorMagnitude_def sum_squares_def example_doc_def Let_def sqrt_25
      example_rounding)

lemma addDocuments_eval:
  assumes "db_open s"
    and "filter (isNewDocument s (map doc_text (idb s))) docs = new0" and "new0 \<noteq> []"
    and "embedTextsFn s (map doc_text new0) = Inr vs"
    and "assignVectors vs 0 new0 = Inr new"
    and "removeDocsLRU H (s\<lparr>embedLog := embedLog s @ [map doc_text new0],
                               documents := documents s @ new\<rparr>) = Some s2"
  shows "addDocuments H s docs = Some (saveToIndexDbStorage s2, Inr new)"
  using assms by (simp add: addDocuments_def Let_def callEmbed_def)

lemma example_filter:
  "filter (isNewDocument (example_store [] t) (map doc_text (idb (example_store [] t))))
      [example_doc ''a'' 0, example_doc ''b'' 1] = [example_doc ''a'' 0, example_doc ''b'' 1]"
  by (simp add: isNewDocument_def example_store_def example_doc_def example_trim)

lemma example_embed_two:
  "embedTextsFn (example_store [] t) (map doc_text [example_doc ''a'' 0, example_doc ''b'' 1])
     = Inr [[Fin 3, Fin 4], [Fin 3, Fin 4]]"
  by (simp add: example_store_def example_embed_def)

text \<open>
  Claim C2 as stated fails on a store as the constructor makes it (training mode on):
  with a ceiling of one megabyte and two documents of one megabyte each inserted, both
  stay in memory.
\<close>

theorem addDocuments_training_counterexample:
  "new_VectorStorage example_helpers example_options [] = Some (example_store [] True)
   \<and> (case addDocuments example_helpers (example_store [] True)
              [example_doc ''a'' 0, example_doc ''b'' 1] of
         Some (s', Inr new) \<Rightarrow>
           length new = 2
           \<and> getObjectSizeInMB example_helpers (documents s') > maxSizeInMB s'
       | _ \<Rightarrow> False)"
proof -
  let ?new = "[(example_doc ''a'' 0)\<lparr>vectorMag := Some (Fin 5)\<rparr>,
               (example_doc ''b'' 1)\<lparr>vectorMag := Some (Fin 5)\<rparr>]"
  let ?s1 = "(example_store [] True)
       \<lparr>embedLog := embedLog (example_store [] True)
            @ [map doc_text [example_doc ''a'' 0, example_doc ''b'' 1]],
        documents := documents (example_store [] True) @ ?new\<rparr>"
  have "new_VectorStorage example_helpers example_options [] = Some (example_store [] True)"
    by (simp add: new_VectorStorage_def example_options_def example_store_def Let_def
        loadFromIndexDbStorage_def removeDocsLRU_def)
  moreover have "addDocuments example_helpers (example_store [] True)
              [example_doc ''a'' 0, example_doc ''b'' 1] =
     Some (saveToIndexDbStorage ?s1, Inr ?new)"
  proof (rule addDocuments_eval [OF _ example_filter _ example_embed_two example_assign])
    show "db_open (example_store [] True)" by (simp add: example_store_def)
    show "[example_doc ''a'' 0, example_doc ''b'' 1] \<noteq> []" by simp
    show "removeDocsLRU example_helpers ?s1 = Some ?s1"
      by (rule removeDocsLRU_training) (simp add: example_store_def)
  qed
  ultimately show ?thesis
    by (simp add: saveToIndexDbStorage_def example_store_def example_helpers_def)
qed

theorem addDocuments_within_ceiling_witness:
  "\<not> trainingMode (example_store [] False)
   \<and> getObjectSizeInMB example_helpers [] \<le> maxSizeInMB (example_store [] False)
   \<and> (case addDocuments example_helpers (example_store [] False)
              [example_doc ''a'' 0, example_doc ''b'' 1] of
         Some (s', Inr new) \<Rightarrow>
           length new = 2
           \<and> map doc_text (documents s') = [''b'']
           \<and> getObjectSizeInMB example_helpers (documents s') \<le> maxSizeInMB s'
       | _ \<Rightarrow> False)"
proof -
  let ?new = "[(example_doc ''a'' 0)\<lparr>vectorMag := Some (Fin 5)\<rparr>,
               (example_doc ''b'' 1)\<lparr>vectorMag := Some (Fin 5)\<rparr>]"
  let ?s1 = "(example_store [] False)
       \<lparr>embedLog := embedLog (example_store [] False)
            @ [map doc_text [example_doc ''a'' 0, example_doc ''b'' 1]],
        documents := documents (example_store [] False) @ ?new\<rparr>"
  have pre: "\<not> trainingMode (example_store [] False)"
    "getObjectSizeInMB example_helpers [] \<le> maxSizeInMB (example_store [] False)"
    by (simp_all add: example_store_def example_helpers_def)
  have srt: "array_sort (\<lambda>a b. compareLRU a b > 0) ?new = ?new"
    by (simp add: array_sort_def compareLRU_def hits0_def example_doc_def)
  have "shiftLoop (\<lambda>ds. real (length ds)) 1 ?new = Some (drop 1 ?new)"
    by (rule shiftLoop_drop) simp_all
  then have lp: "shiftLoop (getObjectSizeInMB example_helpers) (maxSizeInMB ?s1) ?new
       = Some [(example_doc ''b'' 1)\<lparr>vectorMag := Some (Fin 5)\<rparr>]"
    by (simp add: example_store_def example_helpers_def)
  have lru: "removeDocsLRU example_helpers ?s1 =
      Some (?s1\<lparr>documents := [(example_doc ''b'' 1)\<lparr>vectorMag := Some (Fin 5)\<rparr>]\<rparr>)"
  proof -
    have "\<not> trainingMode ?s1" "documents ?s1 = ?new"
      "getObjectSizeInMB example_helpers ?new > maxSizeInMB ?s1"
      by (simp_all add: example_store_def example_helpers_def)
    then show ?thesis unfolding removeDocsLRU_def using lp srt by simp
  qed
  have ev: "addDocuments example_helpers (example_store [] False)
              [example_doc ''a'' 0, example_doc ''b'' 1] =
     Some (saveToIndexDbStorage
             (?s1\<lparr>documents := [(example_doc ''b'' 1)\<lparr>vectorMag := Some (Fin 5)\<rparr>]\<rparr>),
           Inr ?new)"
  proof (rule addDocuments_eval [OF _ example_filter _ example_embed_two example_assign lru])
    show "db_open (example_store [] False)" by (simp add: example_store_def)
    show "[example_doc ''a'' 0, example_doc ''b'' 1] \<noteq> []" by simp
  qed
  from addDocuments_within_ceiling [OF pre, of "[example_doc ''a'' 0, example_doc ''b'' 1]"]
  obtain s' r where r: "addDocuments example_helpers (example_store [] False)
              [example_doc ''a'' 0, example_doc ''b'' 1] = Some (s', r)"
    "\<forall>new. r = Inr new \<and> new \<noteq> [] \<longrightarrow>
           getObjectSizeInMB example_helpers (documents s') \<le> maxSizeInMB s'"
    by blast
  have "r = Inr ?new" using r(1) ev by simp
  then have "getObjectSizeInMB example_helpers (documents s') \<le> maxSizeInMB s'"
    using r(2) by simp
  moreover have "s' = saveToIndexDbStorage
             (?s1\<lparr>documents := [(example_doc ''b'' 1)\<lparr>vectorMag := Some (Fin 5)\<rparr>]\<rparr>)"
    using r(1) ev by simp
  ultimately show ?thesis using pre ev
    by (simp add: saveToIndexDbStorage_def example_doc_def)
qed

subsection \<open>Hit counters\<close>

lemma spread_all_frame:
  "spread_all h pairs = (h', rs) \<Longrightarrow>
   fresh h \<le> fresh h' \<and> (\<forall>r < fresh h. cells h' r = cells h r)
   \<and> (\<forall>r \<in> set rs. fresh h \<le> r)"
proof (induction pairs arbitrary: h h' rs)
  case Nil
  then show ?case by simp
next
  case (Cons pair pairs)
  obtain h1 r where a: "spread_alloc h pair = (h1, r)" by (cases "spread_alloc h pair")
  obtain h2 rs' where b: "spread_all h1 pairs = (h2, rs')" by (cases "spread_all h1 pairs")
  have c: "h' = h2" "rs = r # rs'" using Cons.prems a b by simp_all
  have d: "fresh h1 = fresh h + 1" "r = fresh h" "\<forall>q < fresh h. cells h1 q = cells h q"
    using a by (auto simp: spread_alloc_def)
  from Cons.IH [OF b] d c show ?case by auto
qed

lemma updateHitCounters_refs_frame:
  "r \<notin> set rs \<Longrightarrow> cells (updateHitCounters_refs h rs) r = cells h r"
  by (induction rs arbitrary: h) auto

lemma record_results_frame:
  assumes "record_results h scoresPairs kk = (h', results)" and "r < fresh h"
  shows "cells h' r = cells h r"
proof -
  obtain h1 where h1: "spread_all h (slice0 kk (array_sort (\<lambda>a b. num_gt (compareScore a b) (Fin 0)) scoresPairs)) = (h1, results)"
    "h' = updateHitCounters_refs h1 results"
    using assms(1) by (auto simp: record_results_def Let_def split: prod.splits)
  from spread_all_frame [OF h1(1)] assms(2) have "cells h1 r = cells h r" "r \<notin> set results"
    by auto
  then show ?thesis using h1(2) by (simp add: updateHitCounters_refs_frame)
qed

text \<open>
  The objects of the result list hold what \<open>updateHitCounters (map spread_score \<dots>)\<close>
  computes on values: the fields of the document with \<open>hits\<close> incremented, and the
  score. So the search on values and the one on objects return the same items, and the
  objects that were there before the call are not written (\<open>record_results_frame\<close>).
\<close>

lemma spread_all_cells:
  assumes "spread_all h pairs = (h', rs)" and "\<forall>p \<in> set pairs. fst p < fresh h"
  shows "rs = [fresh h..<fresh h + length pairs]
     \<and> map (cells h') rs = map (\<lambda>p. (fst (cells h (fst p)), Some (snd p))) pairs"
  using assms
proof (induction pairs arbitrary: h h' rs)
  case Nil
  then show ?case by simp
next
  case (Cons pair pairs)
  obtain h1 r where a: "spread_alloc h pair = (h1, r)" by (cases "spread_alloc h pair")
  obtain h2 rs' where b: "spread_all h1 pairs = (h2, rs')" by (cases "spread_all h1 pairs")
  have c: "h' = h2" "rs = r # rs'" using Cons.prems(1) a b by simp_all
  have d: "fresh h1 = fresh h + 1" "r = fresh h"
    "cells h1 = (cells h)(fresh h := (fst (cells h (fst pair)), Some (snd pair)))"
    using a by (auto simp: spread_alloc_def)
  have old: "\<forall>q < fresh h. cells h1 q = cells h q" using d(3) by simp
  have p1: "\<forall>p \<in> set pairs. fst p < fresh h1" using Cons.prems(2) d(1) by auto
  note ih0 = Cons.IH [OF b p1]
  have ih: "rs' = [fresh h1..<fresh h1 + length pairs]"
    "map (cells h2) rs' = map (\<lambda>p. (fst (cells h1 (fst p)), Some (snd p))) pairs"
    using ih0 by blast+
  have e: "map (\<lambda>p. (fst (cells h1 (fst p)), Some (snd p))) pairs
      = map (\<lambda>p. (fst (cells h (fst p)), Some (snd p))) pairs"
    using Cons.prems(2) old by simp
  have f: "cells h2 r = (fst (cells h (fst pair)), Some (snd pair))"
  proof -
    have "cells h2 r = cells h1 r"
      using spread_all_frame [OF b] d(1,2) by simp
    then show ?thesis using d(2,3) by simp
  qed
  have m: "map (cells h') rs = map (\<lambda>p. (fst (cells h (fst p)), Some (snd p))) (pair # pairs)"
    using c f ih(2) e by simp
  have "[fresh h..<fresh h + length (pair # pairs)]
        = fresh h # [Suc (fresh h)..<Suc (fresh h) + length pairs]"
    by (subst upt_conv_Cons) simp_all
  then have u: "rs = [fresh h..<fresh h + length (pair # pairs)]"
    using ih(1) d(1,2) c(2) by simp
  from u m show ?case by (rule conjI)
qed

lemma updateHitCounters_refs_cells:
  "distinct rs \<Longrightarrow>
   cells (updateHitCounters_refs h rs) r =
     (if r \<in> set rs
      then ((fst (cells h r))\<lparr>hits := Some (hits0 (fst (cells h r)) + 1)\<rparr>, snd (cells h r))
      else cells h r)"
  by (induction rs arbitrary: h) (auto simp: updateHitCounters_refs_frame)

lemma record_results_items:
  assumes "record_results h scoresPairs kk = (h', results)"
    and "\<forall>p \<in> set scoresPairs. fst p < fresh h"
  shows "map (cells h') results =
     map (\<lambda>p. ((fst (cells h (fst p)))\<lparr>hits := Some (hits0 (fst (cells h (fst p))) + 1)\<rparr>,
               Some (snd p)))
       (slice0 kk (array_sort (\<lambda>a b. num_gt (compareScore a b) (Fin 0)) scoresPairs))"
proof -
  let ?top = "slice0 kk (array_sort (\<lambda>a b. num_gt (compareScore a b) (Fin 0)) scoresPairs)"
  obtain h1 where h1: "spread_all h ?top = (h1, results)"
    "h' = updateHitCounters_refs h1 results"
    using assms(1) by (auto simp: record_results_def Let_def split: prod.splits)
  have "set ?top \<subseteq> set scoresPairs"
    by (auto simp: slice0_def set_array_sort dest: in_set_takeD)
  then have "\<forall>p \<in> set ?top. fst p < fresh h" using assms(2) by blast
  note sc = spread_all_cells [OF h1(1) this]
  have r: "results = [fresh h..<fresh h + length ?top]"
    "map (cells h1) results = map (\<lambda>p. (fst (cells h (fst p)), Some (snd p))) ?top"
    using sc by blast+
  have "distinct results" using r(1) by simp
  then have "map (cells h') results =
      map (\<lambda>c. ((fst c)\<lparr>hits := Some (hits0 (fst c) + 1)\<rparr>, snd c)) (map (cells h1) results)"
    using h1(2) by (simp add: updateHitCounters_refs_cells)
  then show ?thesis unfolding r(2) by (simp add: comp_def)
qed

lemma example_magnitude: "num_sqrt (sum_squares [Fin 3, Fin 4]) = Fin 5"
  by (simp add: sum_squares_def sqrt_25 example_rounding)

lemma example_score:
  "calculateSimilarityScores [example_doc ''hello'' 1] [Fin 3, Fin 4] (Fin 5) =
     Inr [(example_doc ''hello'' 1, Fin 1)]"
  by (simp add: example_doc_def dotProduct_def index_num_def vectorMag_num_def
      getCosineSimilarityScore_def normalizeScore_def example_rounding)

lemma similaritySearch_eval:
  assumes "embedTextsFn s [query params] = Inr (qv # others)"
    and "calculateSimilarityScores
           (filterDocuments H (documents s) (filterOptions params)) qv (calculateMagnitude qv)
         = Inr scoresPairs"
    and "updateHitCounters (map spread_score
           (slice0 (case k params of None \<Rightarrow> 4 | Some n \<Rightarrow> n)
              (array_sort (\<lambda>a b. num_gt (compareScore a b) (Fin 0)) scoresPairs))) = results"
    and "results \<noteq> []"
    and "removeDocsLRU H (s\<lparr>embedLog := embedLog s @ [[query params]]\<rparr>) = Some s2"
  shows "similaritySearch H s params =
     Some (saveToIndexDbStorage s2,
           Inr (if includeValues params then results else map deleteValues results,
                (qv, query params)))"
  using assms by (simp add: similaritySearch_def embedText_def callEmbed_def Let_def)

text \<open>
  Claim C1 does not hold of the code. The store holds one document, \<open>hello\<close>, embedded as
  \<open>(3, 4)\<close>, and the query is embedded the same. The search returns one item, with score 1
  and \<open>hits\<close> 1, and the document in memory and the record saved to the backend still
  have no \<open>hits\<close>. The second part is the same step over the object store: the document
  is the object at reference 0, the result is a new object at reference 1, and the
  counter is written there only.
\<close>

theorem similaritySearch_hits_on_copies:
  "(case similaritySearch example_helpers (example_store [example_doc ''hello'' 1] False)
           \<lparr>query = ''hello'', k = None, filterOptions = (), includeValues = False\<rparr> of
      Some (s', Inr (similarItems, q)) \<Rightarrow>
        map hits similarItems = [Some 1] \<and> map score similarItems = [Fin 1]
        \<and> map hits (documents s') = [None] \<and> map hits (idb s') = [None]
        \<and> saveCount s' = 1
    | _ \<Rightarrow> False)
   \<and> (case record_results \<lparr>cells = (\<lambda>r. (example_doc ''hello'' 1, None)), fresh = 1\<rparr>
              [(0, Fin 1)] 4 of
        (h', results) \<Rightarrow>
          results = [1] \<and> hits (fst (cells h' 1)) = Some 1 \<and> snd (cells h' 1) = Some (Fin 1)
          \<and> hits (fst (cells h' 0)) = None)"
proof -
  let ?s = "example_store [example_doc ''hello'' 1] False"
  let ?p = "\<lparr>query = ''hello'', k = None, filterOptions = (), includeValues = False\<rparr>"
  let ?results = "[\<lparr>hits = Some 1, metadata = ''m'', doc_text = ''hello'', timestamp = 1,
       vector = Some [Fin 3, Fin 4], vectorMag = Some (Fin 5), score = Fin 1\<rparr>]"
  let ?s1 = "?s\<lparr>embedLog := embedLog ?s @ [[query ?p]]\<rparr>"
  have "similaritySearch example_helpers ?s ?p =
     Some (saveToIndexDbStorage ?s1,
           Inr (if includeValues ?p then ?results else map deleteValues ?results,
                ([Fin 3, Fin 4], query ?p)))"
  proof (rule similaritySearch_eval)
    show "embedTextsFn ?s [query ?p] = Inr ([Fin 3, Fin 4] # [])"
      by (simp add: example_store_def example_embed_def)
    show "calculateSimilarityScores
           (filterDocuments example_helpers (documents ?s) (filterOptions ?p)) [Fin 3, Fin 4]
           (calculateMagnitude [Fin 3, Fin 4]) = Inr [(example_doc ''hello'' 1, Fin 1)]"
    proof -
      have "filterDocuments example_helpers (documents ?s) (filterOptions ?p)
              = [example_doc ''hello'' 1]"
        by (simp add: example_store_def example_helpers_def)
      moreover have "calculateMagnitude [Fin 3, Fin 4] = Fin 5"
        by (simp add: calculateMagnitude_def example_magnitude)
      ultimately show ?thesis by (simp only: example_score)
    qed
    show "updateHitCounters (map spread_score
           (slice0 (case k ?p of None \<Rightarrow> 4 | Some n \<Rightarrow> n)
              (array_sort (\<lambda>a b. num_gt (compareScore a b) (Fin 0))
                 [(example_doc ''hello'' 1, Fin 1)]))) = ?results"
      by (simp add: array_sort_def slice0_def spread_score_def updateHitCounters_def hits0_def
          example_doc_def)
    show "?results \<noteq> []" by simp
    show "removeDocsLRU example_helpers ?s1 = Some ?s1"
      by (rule removeDocsLRU_within) (simp add: example_store_def example_helpers_def)
  qed
  then have a: "(case similaritySearch example_helpers ?s ?p of
      Some (s', Inr (similarItems, q)) \<Rightarrow>
        map hits similarItems = [Some 1] \<and> map score similarItems = [Fin 1]
        \<and> map hits (documents s') = [None] \<and> map hits (idb s') = [None]
        \<and> saveCount s' = 1
    | _ \<Rightarrow> False)"
    by (simp add: saveToIndexDbStorage_def deleteValues_def example_store_def example_doc_def)
  have b: "(case record_results \<lparr>cells = (\<lambda>r. (example_doc ''hello'' 1, None)), fresh = 1\<rparr>
              [(0, Fin 1)] 4 of
        (h', results) \<Rightarrow>
          results = [1] \<and> hits (fst (cells h' 1)) = Some 1 \<and> snd (cells h' 1) = Some (Fin 1)
          \<and> hits (fst (cells h' 0)) = None)"
    by (simp add: record_results_def array_sort_def slice0_def spread_alloc_def hits0_def
        example_doc_def)
  from a b show ?thesis by (rule conjI)
qed

lemma example_texts_docs:
  "map (\<lambda>(txt, index).
          \<lparr>hits = None, metadata = [''m1'', ''m2''] ! index, doc_text = txt,
           timestamp = int index, vector = Some [], vectorMag = Some (Fin 0)\<rparr>)
     (zip [''a'', ''a''] [0..<length [''a'', ''a'']]) =
   [\<lparr>hits = None, metadata = ''m1'', doc_text = ''a'', timestamp = 0,
     vector = Some [], vectorMag = Some (Fin 0)\<rparr>,
    \<lparr>hits = None, metadata = ''m2'', doc_text = ''a'', timestamp = 1,
     vector = Some [], vectorMag = Some (Fin 0)\<rparr>]"
  by (simp add: upt_rec)

subsection \<open>Uniqueness of texts\<close>

text \<open>
  What the filter of \<open>addDocuments\<close> ensures: an inserted document has a text that is
  not empty or whitespace-only and is the text of no document in memory and of no record
  of the backend; and when the texts of the batch differ from one another, an insertion
  keeps the texts in memory distinct.
\<close>

lemma assignVectors_texts:
  "assignVectors vs i ds = Inr new \<Longrightarrow> map doc_text new = map doc_text ds"
proof (induction ds arbitrary: i new)
  case Nil
  then show ?case by simp
next
  case (Cons d ds)
  let ?d1 = "d\<lparr>vector := (if i < length vs then Some (vs ! i) else None)\<rparr>"
  from Cons.prems obtain m rest where
    r: "assignVectors vs (i + 1) ds = Inr rest" and n: "new = ?d1\<lparr>vectorMag := Some m\<rparr> # rest"
    by (auto simp: Let_def split: sum.splits)
  from Cons.IH [OF r] n show ?case by simp
qed

lemma assignVectors_nonempty:
  "assignVectors vs i ds = Inr new \<Longrightarrow> ds \<noteq> [] \<Longrightarrow> new \<noteq> []"
  using assignVectors_texts [of vs i ds new] by auto

lemma addDocuments_texts:
  assumes "addDocuments H s docs = Some (s', Inr new)"
  shows "\<forall>d \<in> set new. trim (doc_text d) \<noteq> []
           \<and> doc_text d \<notin> doc_text ` set (documents s)
           \<and> doc_text d \<notin> doc_text ` set (idb s)"
proof (cases "new = []")
  case True
  then show ?thesis by simp
next
  case False
  let ?new0 = "filter (isNewDocument s (map doc_text (idb s))) docs"
  from addDocuments_inserted [OF assms False] obtain vs where
    "assignVectors vs 0 ?new0 = Inr new" by blast
  then have "map doc_text new = map doc_text ?new0" by (rule assignVectors_texts)
  then have "set (map doc_text new) = set (map doc_text ?new0)" by simp
  then have "\<forall>d \<in> set new. \<exists>d0 \<in> set ?new0. doc_text d = doc_text d0"
    by (metis (no_types, lifting) image_iff list.set_map)
  then show ?thesis using isNewDocument_iff [of s] by fastforce
qed

lemma shiftLoop_suffix:
  assumes "shiftLoop sizeInMB maxSize ds = Some r"
  shows "\<exists>n. r = drop n ds"
proof (rule shiftLoop.raw_induct [where P = "\<lambda>sz mx ds r. \<exists>n. r = drop n ds", OF _ assms])
  fix f :: "('a list \<Rightarrow> real) \<Rightarrow> real \<Rightarrow> 'a list \<Rightarrow> 'a list option"
    and sz mx ds r
  assume IH: "\<And>sz mx ds r. f sz mx ds = Some r \<Longrightarrow> \<exists>n. r = drop n ds"
    and body: "(if sz ds > mx then f sz mx (tl ds) else Some ds) = Some r"
  show "\<exists>n. r = drop n ds"
  proof (cases "sz ds > mx")
    case True
    then have "f sz mx (tl ds) = Some r" using body by simp
    then obtain n where "r = drop n (tl ds)" using IH by blast
    then have "r = drop (Suc n) ds" by (simp add: drop_Suc)
    then show ?thesis by blast
  next
    case False
    then have "r = drop 0 ds" using body by simp
    then show ?thesis by blast
  qed
qed

lemma removeDocsLRU_distinct:
  assumes "distinct (map doc_text (documents s))" and "removeDocsLRU H s = Some s'"
  shows "distinct (map doc_text (documents s'))"
proof (cases "trainingMode s \<or> \<not> getObjectSizeInMB H (documents s) > maxSizeInMB s")
  case True
  then have "s' = s" using assms(2) by (auto simp: removeDocsLRU_def split: if_splits)
  then show ?thesis using assms(1) by simp
next
  case False
  let ?sorted = "array_sort (\<lambda>a b. compareLRU a b > 0) (documents s)"
  from False obtain ds where ds:
    "shiftLoop (getObjectSizeInMB H) (maxSizeInMB s) ?sorted = Some ds"
    "s' = s\<lparr>documents := ds\<rparr>"
    using assms(2) by (auto simp: removeDocsLRU_def split: option.splits if_splits)
  obtain n where n: "ds = drop n ?sorted" using shiftLoop_suffix [OF ds(1)] by blast
  have "mset (map doc_text ?sorted) = mset (map doc_text (documents s))"
    by (simp add: mset_array_sort)
  then have "distinct (map doc_text ?sorted)"
    using assms(1) by (metis mset_eq_imp_distinct_iff)
  then have "distinct (map doc_text ds)"
    unfolding n by (simp add: drop_map [symmetric] distinct_drop)
  then show ?thesis using ds(2) by simp
qed

lemma addDocuments_documents:
  assumes "addDocuments H s docs = Some (s', r)"
  shows "documents s' = documents s \<or> (\<exists>new. r = Inr new \<and> new \<noteq> [])"
proof (cases "db_open s \<and> filter (isNewDocument s (map doc_text (idb s))) docs \<noteq> []")
  case False
  then have "s' = s" using assms by (auto simp: addDocuments_def Let_def split: if_splits)
  then show ?thesis by simp
next
  case True
  let ?new0 = "filter (isNewDocument s (map doc_text (idb s))) docs"
  let ?s1 = "s\<lparr>embedLog := embedLog s @ [map doc_text ?new0]\<rparr>"
  show ?thesis
  proof (cases "embedTextsFn s (map doc_text ?new0)")
    case (Inl e)
    then have "s' = ?s1" using assms True
      by (simp add: addDocuments_def Let_def callEmbed_def)
    then show ?thesis by simp
  next
    case (Inr vs)
    show ?thesis
    proof (cases "assignVectors vs 0 ?new0")
      case (Inl e)
      then have "s' = ?s1" using assms True Inr
        by (simp add: addDocuments_def Let_def callEmbed_def)
      then show ?thesis by simp
    next
      case new: (Inr new)
      then have "r = Inr new"
        using assms True Inr
        by (auto simp: addDocuments_def Let_def callEmbed_def split: option.splits)
      moreover have "new \<noteq> []" using assignVectors_nonempty [OF new] True by simp
      ultimately show ?thesis by simp
    qed
  qed
qed

lemma addDocuments_distinct:
  assumes "distinct (map doc_text (documents s))" and "distinct (map doc_text docs)"
    and "addDocuments H s docs = Some (s', r)"
  shows "distinct (map doc_text (documents s'))"
proof (cases "\<exists>new. r = Inr new \<and> new \<noteq> []")
  case False
  then have "documents s' = documents s"
    using addDocuments_documents [OF assms(3)] by blast
  then show ?thesis using assms(1) by simp
next
  case True
  then obtain new where new: "r = Inr new" "new \<noteq> []" by blast
  let ?new0 = "filter (isNewDocument s (map doc_text (idb s))) docs"
  have sr: "addDocuments H s docs = Some (s', Inr new)" using assms(3) new(1) by simp
  from addDocuments_inserted [OF sr new(2)] obtain vs s2 where s2:
    "assignVectors vs 0 ?new0 = Inr new"
    "removeDocsLRU H
           (s\<lparr>embedLog := embedLog s @ [map doc_text ?new0],
               documents := documents s @ new\<rparr>) = Some s2"
    "s' = saveToIndexDbStorage s2"
    by auto
  have t: "map doc_text new = map doc_text ?new0" using s2(1) by (rule assignVectors_texts)
  have "distinct (map doc_text ?new0)"
    using assms(2) by (simp add: distinct_map_filter)
  then have d: "distinct (map doc_text new)" using t by simp
  have "set (map doc_text new) \<inter> set (map doc_text (documents s)) = {}"
    using addDocuments_texts [OF sr] by auto
  then have "distinct (map doc_text (documents s @ new))"
    using assms(1) d by auto
  then have "distinct (map doc_text (documents s2))"
    using removeDocsLRU_distinct [OF _ s2(2)] by simp
  then show ?thesis using s2(3) by (simp add: saveToIndexDbStorage_def)
qed

text \<open>
  Claim C5 does not hold of the code when one batch holds a text twice: the filter of
  \<open>addDocuments\<close> compares a candidate with the documents in memory and the records of
  the backend, not with the other candidates. Both documents are inserted; the save that
  follows fails on the unique index and the backend stays empty.
\<close>

theorem addTexts_same_text_twice:
  "(case addTexts example_helpers (\<lambda>i. int i) (example_store [] True)
           [''a'', ''a''] [''m1'', ''m2''] of
      Some (s', Inr new) \<Rightarrow>
        map doc_text (documents s') = [''a'', ''a'']
        \<and> map metadata (documents s') = [''m1'', ''m2'']
        \<and> length new = 2 \<and> idb s' = [] \<and> saveCount s' = 1
    | _ \<Rightarrow> False)"
proof -
  let ?s = "example_store [] True :: string VectorStorage"
  let ?docs = "[\<lparr>hits = None, metadata = ''m1'', doc_text = ''a'', timestamp = 0,
                 vector = Some [], vectorMag = Some (Fin 0)\<rparr>,
                \<lparr>hits = None, metadata = ''m2'', doc_text = ''a'', timestamp = 1,
                 vector = Some [], vectorMag = Some (Fin 0)\<rparr>]"
  let ?new = "[\<lparr>hits = None, metadata = ''m1'', doc_text = ''a'', timestamp = 0,
                 vector = Some [Fin 3, Fin 4], vectorMag = Some (Fin 5)\<rparr>,
                \<lparr>hits = None, metadata = ''m2'', doc_text = ''a'', timestamp = 1,
                 vector = Some [Fin 3, Fin 4], vectorMag = Some (Fin 5)\<rparr>]"
  let ?s1 = "?s\<lparr>embedLog := embedLog ?s @ [map doc_text ?docs],
                documents := documents ?s @ ?new\<rparr>"
  have "addTexts example_helpers (\<lambda>i. int i) ?s [''a'', ''a''] [''m1'', ''m2'']
          = addDocuments example_helpers ?s ?docs"
    by (simp add: addTexts_def example_texts_docs)
  also have "\<dots> = Some (saveToIndexDbStorage ?s1, Inr ?new)"
  proof (rule addDocuments_eval)
    show "db_open ?s" by (simp add: example_store_def)
    show "filter (isNewDocument ?s (map doc_text (idb ?s))) ?docs = ?docs"
      by (simp add: isNewDocument_def example_store_def example_trim)
    show "?docs \<noteq> []" by simp
    show "embedTextsFn ?s (map doc_text ?docs) = Inr [[Fin 3, Fin 4], [Fin 3, Fin 4]]"
      by (simp add: example_store_def example_embed_def)
    show "assignVectors [[Fin 3, Fin 4], [Fin 3, Fin 4]] 0 ?docs = Inr ?new"
      by (simp add: calcVectorMagnitude_def example_magnitude Let_def)
    show "removeDocsLRU example_helpers ?s1 = Some ?s1"
      by (rule removeDocsLRU_training) (simp add: example_store_def)
  qed
  finally show ?thesis
    by (simp add: saveToIndexDbStorage_def example_store_def)
qed

subsection \<open>Scores\<close>

lemma num_add_NaN [simp]: "num_add a NaN = NaN"
  by (cases a) simp_all

lemma num_mul_NaN [simp]: "num_mul a NaN = NaN"
  by (cases a) simp_all

lemma num_div_NaN [simp]: "num_div a NaN = NaN"
  by (cases a) simp_all

lemma foldl_dot_NaN:
  "foldl (\<lambda>sum (val, i). num_add sum (num_mul val (index_num q i))) NaN ps = NaN"
  by (induction ps) (auto split: prod.splits)

lemma dotProduct_short_query:
  assumes "length q < length v"
  shows "dotProduct v q = NaN"
proof -
  let ?f = "\<lambda>sum (val, i). num_add sum (num_mul val (index_num q i))"
  let ?n = "length q"
  have "zip v [0..<length v] =
          zip (take ?n v) [0..<?n] @ (v ! ?n, ?n) # zip (drop (Suc ?n) v) [Suc ?n..<length v]"
  proof -
    have v: "v = take ?n v @ (v ! ?n) # drop (Suc ?n) v"
      using assms by (simp add: id_take_nth_drop)
    have u: "[0..<length v] = [0..<?n] @ ?n # [Suc ?n..<length v]"
      using assms by (metis le_add1 less_imp_add_positive upt_add_eq_append upt_conv_Cons
          plus_nat.add_0 add.commute)
    have "zip v [0..<length v] =
            zip (take ?n v @ (v ! ?n) # drop (Suc ?n) v) ([0..<?n] @ ?n # [Suc ?n..<length v])"
      using v u by simp
    also have "\<dots> = zip (take ?n v) [0..<?n] @ zip ((v ! ?n) # drop (Suc ?n) v) (?n # [Suc ?n..<length v])"
      using assms by (intro zip_append) simp
    finally show ?thesis by simp
  qed
  then have "dotProduct v q =
      foldl ?f (?f (foldl ?f (Fin 0) (zip (take ?n v) [0..<?n])) (v ! ?n, ?n))
        (zip (drop (Suc ?n) v) [Suc ?n..<length v])"
    by (simp add: dotProduct_def)
  also have "?f (foldl ?f (Fin 0) (zip (take ?n v) [0..<?n])) (v ! ?n, ?n) = NaN"
    by (simp add: index_num_def)
  finally show ?thesis by (simp add: foldl_dot_NaN)
qed

lemma dotProduct_long_query:
  assumes "length v \<le> length q"
  shows "dotProduct v q = dotProduct v (take (length v) q)"
proof -
  have "foldl (\<lambda>sum (val, i). num_add sum (num_mul val (index_num q i))) a ps =
        foldl (\<lambda>sum (val, i). num_add sum (num_mul val (index_num (take (length v) q) i))) a ps"
    if "\<forall>p \<in> set ps. snd p < length v" for a ps
    using that assms
    by (induction ps arbitrary: a) (auto simp: index_num_def)
  moreover have "\<forall>p \<in> set (zip v [0..<length v]). snd p < length v"
    by (auto dest: set_zip_rightD)
  ultimately show ?thesis by (simp add: dotProduct_def)
qed

lemma normalize_cosine_NaN:
  "normalizeScore (getCosineSimilarityScore NaN a b) = NaN"
  by (simp add: normalizeScore_def getCosineSimilarityScore_def)

text \<open>
  Claim C6, amended. The scoring step has no check of lengths. For documents that have a
  vector it returns a score for every document, whatever the lengths: the score is
  \<open>NaN\<close> when the query vector is shorter than the document's vector, and when it is
  longer the score is the one computed from its leading components, the others being
  ignored.
\<close>

theorem scores_whatever_the_lengths:
  assumes "\<forall>doc \<in> set docs. vector doc \<noteq> None"
  shows "\<exists>pairs. calculateSimilarityScores docs q qm = Inr pairs
     \<and> map fst pairs = docs
     \<and> (\<forall>p \<in> set pairs. \<forall>v. vector (fst p) = Some v \<longrightarrow>
           (length q < length v \<longrightarrow> snd p = NaN)
           \<and> (length v \<le> length q \<longrightarrow>
                snd p = normalizeScore (getCosineSimilarityScore
                          (dotProduct v (take (length v) q)) (vectorMag_num (fst p)) qm)))"
  using assms
proof (induction docs)
  case Nil
  show ?case by simp
next
  case (Cons doc docs)
  obtain v where v: "vector doc = Some v" using Cons.prems by auto
  obtain pairs where p: "calculateSimilarityScores docs q qm = Inr pairs"
    "map fst pairs = docs"
    "\<forall>p \<in> set pairs. \<forall>v. vector (fst p) = Some v \<longrightarrow>
           (length q < length v \<longrightarrow> snd p = NaN)
           \<and> (length v \<le> length q \<longrightarrow>
                snd p = normalizeScore (getCosineSimilarityScore
                          (dotProduct v (take (length v) q)) (vectorMag_num (fst p)) qm))"
    using Cons by auto
  let ?sc = "normalizeScore (getCosineSimilarityScore (dotProduct v q) (vectorMag_num doc) qm)"
  have e: "calculateSimilarityScores (doc # docs) q qm = Inr ((doc, ?sc) # pairs)"
    using v p(1) by simp
  have "length q < length v \<Longrightarrow> ?sc = NaN"
    by (simp add: dotProduct_short_query normalize_cosine_NaN)
  moreover have "length v \<le> length q \<Longrightarrow>
      ?sc = normalizeScore (getCosineSimilarityScore
                          (dotProduct v (take (length v) q)) (vectorMag_num doc) qm)"
    using dotProduct_long_query [of v q] by simp
  ultimately show ?case using e p(2,3) v by auto
qed

text \<open>
  Claim C6 as stated fails: a document vector of length 1 against a query vector of
  length 2 gives a score and no error. The score is the binary64 number written
  \<open>0.8\<close>, for \<open>((1 * 3) / (1 * 5) + 1) / 2\<close>.
\<close>

theorem scores_unequal_lengths_counterexample:
  "length [Fin 1] \<noteq> length [Fin 3, Fin 4]
   \<and> calculateSimilarityScores
        [(example_doc ''a'' 0)\<lparr>vector := Some [Fin 1], vectorMag := Some (Fin 1)\<rparr>]
        [Fin 3, Fin 4] (Fin 5) =
      Inr [((example_doc ''a'' 0)\<lparr>vector := Some [Fin 1], vectorMag := Some (Fin 1)\<rparr>,
            Fin (3602879701896397 / 2 ^ 52))]"
  by (simp add: dotProduct_def index_num_def vectorMag_num_def getCosineSimilarityScore_def
      normalizeScore_def example_rounding example_rounding_fifths)

theorem scores_whatever_the_lengths_witness:
  "calculateSimilarityScores [example_doc ''a'' 0] [Fin 3] (Fin 3) =
     Inr [(example_doc ''a'' 0, NaN)]
   \<and> calculateSimilarityScores [example_doc ''a'' 0] [Fin 3, Fin 4, Fin 7] (Fin 5) =
     Inr [(example_doc ''a'' 0, Fin 1)]"
proof -
  have h: "\<forall>doc \<in> set [example_doc ''a'' 0]. vector doc \<noteq> None"
    by (simp add: example_doc_def)
  from scores_whatever_the_lengths [OF h, of "[Fin 3]" "Fin 3"]
  obtain pairs where p: "calculateSimilarityScores [example_doc ''a'' 0] [Fin 3] (Fin 3) = Inr pairs"
    "map fst pairs = [example_doc ''a'' 0]"
    "\<forall>p \<in> set pairs. \<forall>v. vector (fst p) = Some v \<longrightarrow>
           (length [Fin 3] < length v \<longrightarrow> snd p = NaN)
           \<and> (length v \<le> length [Fin 3] \<longrightarrow>
                snd p = normalizeScore (getCosineSimilarityScore
                          (dotProduct v (take (length v) [Fin 3])) (vectorMag_num (fst p)) (Fin 3)))"
    by (elim exE conjE)
  from p(2) obtain sc where "pairs = [(example_doc ''a'' 0, sc)]"
    by (cases pairs) auto
  with p have short: "calculateSimilarityScores [example_doc ''a'' 0] [Fin 3] (Fin 3) =
     Inr [(example_doc ''a'' 0, NaN)]"
    by (auto simp: example_doc_def)
  from scores_whatever_the_lengths [OF h, of "[Fin 3, Fin 4, Fin 7]" "Fin 5"]
  obtain pairs' where q:
    "calculateSimilarityScores [example_doc ''a'' 0] [Fin 3, Fin 4, Fin 7] (Fin 5) = Inr pairs'"
    "map fst pairs' = [example_doc ''a'' 0]"
    "\<forall>p \<in> set pairs'. \<forall>v. vector (fst p) = Some v \<longrightarrow>
           (length [Fin 3, Fin 4, Fin 7] < length v \<longrightarrow> snd p = NaN)
           \<and> (length v \<le> length [Fin 3, Fin 4, Fin 7] \<longrightarrow>
                snd p = normalizeScore (getCosineSimilarityScore
                          (dotProduct v (take (length v) [Fin 3, Fin 4, Fin 7]))
                          (vectorMag_num (fst p)) (Fin 5)))"
    by (elim exE conjE)
  from q(2) obtain sc' where s': "pairs' = [(example_doc ''a'' 0, sc')]"
    by (cases pairs') auto
  have "vector (example_doc ''a'' 0) = Some [Fin 3, Fin 4]" by (simp add: example_doc_def)
  with q(3) s' have "sc' = normalizeScore (getCosineSimilarityScore
        (dotProduct [Fin 3, Fin 4] (take 2 [Fin 3, Fin 4, Fin 7]))
        (vectorMag_num (example_doc ''a'' 0)) (Fin 5))"
    by simp
  also have "\<dots> = Fin 1"
    by (simp add: dotProduct_def index_num_def vectorMag_num_def getCosineSimilarityScore_def
        normalizeScore_def example_doc_def example_rounding)
  finally have long: "calculateSimilarityScores [example_doc ''a'' 0] [Fin 3, Fin 4, Fin 7] (Fin 5) =
     Inr [(example_doc ''a'' 0, Fin 1)]"
    using q(1) s' by simp
  from short long show ?thesis by (rule conjI)
qed

subsection \<open>Order of the search results\<close>

text \<open>
  The comparator of the sort is \<open>b[1] - a[1]\<close>. The difference of two binary64 numbers
  has the sign of the exact difference: it does not underflow.
\<close>

lemma compareScore_gt:
  "is_double x \<Longrightarrow> is_double y \<Longrightarrow> x \<noteq> NaN \<Longrightarrow> y \<noteq> NaN \<Longrightarrow>
   num_gt (num_sub y x) (Fin 0) \<longleftrightarrow> num_gt y x"
  by (cases x; cases y) (simp_all add: num_sub_def is_double_def round_double_diff)

text \<open>Every score is a binary64 number: it is the result of a division.\<close>

lemma normalizeScore_double: "is_double (normalizeScore c)"
proof (cases "num_add c (Fin 1)")
  case (Fin a)
  then show ?thesis by (simp add: normalizeScore_def round_double_is_double)
qed (simp_all add: normalizeScore_def is_double_def)

lemma scores_double:
  "calculateSimilarityScores docs q qm = Inr pairs \<Longrightarrow> list_all (\<lambda>p. is_double (snd p)) pairs"
proof (induction docs arbitrary: pairs)
  case Nil
  then show ?case by simp
next
  case (Cons doc docs)
  then show ?case
    by (auto simp: normalizeScore_double split: option.splits sum.splits)
qed

lemma num_gt_asym: "num_gt x y \<Longrightarrow> \<not> num_gt y x"
  by (cases x; cases y) simp_all

lemma num_gt_negtrans:
  "x \<noteq> NaN \<Longrightarrow> y \<noteq> NaN \<Longrightarrow> z \<noteq> NaN \<Longrightarrow>
   \<not> num_gt x y \<Longrightarrow> \<not> num_gt y z \<Longrightarrow> \<not> num_gt x z"
  by (cases x; cases y; cases z) simp_all

lemma not_num_gt_ge:
  "x \<noteq> NaN \<Longrightarrow> y \<noteq> NaN \<Longrightarrow> \<not> num_gt y x \<longleftrightarrow> num_ge x y"
  by (cases x; cases y) (auto simp: num_ge_def)

lemma compareScore_equal: "snd a = snd b \<Longrightarrow> \<not> num_gt (compareScore a b) (Fin 0)"
  by (cases "snd b") (simp_all add: compareScore_def num_sub_def)

lemma sorted_scores:
  assumes "\<forall>p \<in> set pairs. snd p \<noteq> NaN" and d: "list_all (\<lambda>p. is_double (snd p)) pairs"
  shows "sorted_wrt (\<lambda>a b. num_ge (snd a) (snd b))
           (array_sort (\<lambda>a b. num_gt (compareScore a b) (Fin 0)) pairs)"
proof -
  let ?gt = "\<lambda>a b :: 'a \<times> number. num_gt (compareScore a b) (Fin 0)"
  have gt: "?gt a b \<longleftrightarrow> num_gt (snd b) (snd a)" if "a \<in> set pairs" "b \<in> set pairs" for a b
    using that assms by (simp add: compareScore_def compareScore_gt list_all_iff)
  have "sorted_wrt (\<lambda>a b. \<not> ?gt a b) (array_sort ?gt pairs)"
  proof (rule sorted_wrt_array_sort)
    show "\<forall>a\<in>set pairs. \<forall>b\<in>set pairs. ?gt a b \<longrightarrow> \<not> ?gt b a"
      using gt num_gt_asym by blast
    show "\<forall>a\<in>set pairs. \<forall>b\<in>set pairs. \<forall>c\<in>set pairs.
            \<not> ?gt a b \<longrightarrow> \<not> ?gt b c \<longrightarrow> \<not> ?gt a c"
    proof (intro ballI impI)
      fix a b c assume m: "a \<in> set pairs" "b \<in> set pairs" "c \<in> set pairs"
        and n: "\<not> ?gt a b" "\<not> ?gt b c"
      have "\<not> num_gt (snd b) (snd a)" "\<not> num_gt (snd c) (snd b)"
        using n gt m by simp_all
      then have "\<not> num_gt (snd c) (snd a)"
        using num_gt_negtrans [of "snd c" "snd b" "snd a"] assms m by blast
      then show "\<not> ?gt a c" using gt m by simp
    qed
  qed
  then show ?thesis
  proof (rule sorted_wrt_mono_rel [rotated])
    fix a b assume "a \<in> set (array_sort ?gt pairs)" "b \<in> set (array_sort ?gt pairs)"
      "\<not> ?gt a b"
    then have "a \<in> set pairs" "b \<in> set pairs" "\<not> num_gt (snd b) (snd a)"
      using gt by (simp_all add: set_array_sort)
    then show "num_ge (snd a) (snd b)"
      using assms not_num_gt_ge [of "snd a" "snd b"] by blast
  qed
qed

lemma stable_scores:
  "filter (\<lambda>p. snd p = v) (array_sort (\<lambda>a b. num_gt (compareScore a b) (Fin 0)) pairs) =
   filter (\<lambda>p. snd p = v) pairs"
  by (rule filter_array_sort) (simp add: compareScore_equal)

lemma similaritySearch_answer:
  assumes "similaritySearch H s params = Some (s', Inr (similarItems, (qv, qt)))"
  shows "\<exists>scoresPairs.
      calculateSimilarityScores (filterDocuments H (documents s) (filterOptions params)) qv
        (calculateMagnitude qv) = Inr scoresPairs
      \<and> similarItems =
          (if includeValues params then id else map deleteValues)
            (updateHitCounters (map spread_score
               (slice0 (case k params of None \<Rightarrow> 4 | Some n \<Rightarrow> n)
                  (array_sort (\<lambda>a b. num_gt (compareScore a b) (Fin 0)) scoresPairs))))"
  using assms
  by (auto simp: similaritySearch_def embedText_def callEmbed_def Let_def
      split: sum.splits option.splits list.splits if_splits)

lemma sorted_wrt_slice0: "sorted_wrt P xs \<Longrightarrow> sorted_wrt P (slice0 n xs)"
  by (simp add: slice0_def sorted_wrt_take)

lemma score_results:
  "map score ((if iv then id else map deleteValues) (updateHitCounters (map spread_score ps)))
     = map snd ps"
  by (simp add: updateHitCounters_def spread_score_def deleteValues_def comp_def)

lemma fields_results:
  "map (\<lambda>item. (metadata item, doc_text item, timestamp item, score item))
     ((if iv then id else map deleteValues) (updateHitCounters (map spread_score ps)))
   = map (\<lambda>p. (metadata (fst p), doc_text (fst p), timestamp (fst p), snd p)) ps"
  by (simp add: updateHitCounters_def spread_score_def deleteValues_def comp_def)

text \<open>
  Claim C8, amended. When no document that passes the filter has the score \<open>NaN\<close>, the
  items that a search returns are in descending order of score: they are the first
  \<open>k\<close> pairs (metadata, text, timestamp and score) of a list that is a permutation of
  the scored documents, in descending order of score, with the pairs of each score in
  the order they had before the sort.
\<close>

theorem similaritySearch_sorted_stable:
  assumes "similaritySearch H s params = Some (s', Inr (similarItems, (qv, qt)))"
    and "calculateSimilarityScores (filterDocuments H (documents s) (filterOptions params)) qv
           (calculateMagnitude qv) = Inr scoresPairs"
    and "\<forall>p \<in> set scoresPairs. snd p \<noteq> NaN"
  shows "sorted_wrt num_ge (map score similarItems)
     \<and> (\<exists>sortedPairs. mset sortedPairs = mset scoresPairs
          \<and> sorted_wrt (\<lambda>a b. num_ge (snd a) (snd b)) sortedPairs
          \<and> (\<forall>v. filter (\<lambda>p. snd p = v) sortedPairs = filter (\<lambda>p. snd p = v) scoresPairs)
          \<and> map (\<lambda>item. (metadata item, doc_text item, timestamp item, score item)) similarItems
              = map (\<lambda>p. (metadata (fst p), doc_text (fst p), timestamp (fst p), snd p))
                  (slice0 (case k params of None \<Rightarrow> 4 | Some n \<Rightarrow> n) sortedPairs))"
proof -
  let ?sorted = "array_sort (\<lambda>a b. num_gt (compareScore a b) (Fin 0)) scoresPairs"
  let ?kk = "case k params of None \<Rightarrow> 4 | Some n \<Rightarrow> n"
  have items: "similarItems =
          (if includeValues params then id else map deleteValues)
            (updateHitCounters (map spread_score (slice0 ?kk ?sorted)))"
    using similaritySearch_answer [OF assms(1)] assms(2) by auto
  have s: "sorted_wrt (\<lambda>a b. num_ge (snd a) (snd b)) ?sorted"
    using assms(3) scores_double [OF assms(2)] by (rule sorted_scores)
  then have "sorted_wrt (\<lambda>a b. num_ge (snd a) (snd b)) (slice0 ?kk ?sorted)"
    by (rule sorted_wrt_slice0)
  then have "sorted_wrt num_ge (map snd (slice0 ?kk ?sorted))"
    by (simp add: sorted_wrt_map)
  then have a: "sorted_wrt num_ge (map score similarItems)"
    unfolding items score_results .
  have b: "map (\<lambda>item. (metadata item, doc_text item, timestamp item, score item)) similarItems
              = map (\<lambda>p. (metadata (fst p), doc_text (fst p), timestamp (fst p), snd p))
                  (slice0 ?kk ?sorted)"
    unfolding items fields_results ..
  have "mset ?sorted = mset scoresPairs" by (rule mset_array_sort)
  moreover have "\<forall>v. filter (\<lambda>p. snd p = v) ?sorted = filter (\<lambda>p. snd p = v) scoresPairs"
    by (simp add: stable_scores)
  ultimately show ?thesis using a b s by blast
qed

lemma example_scores_zero:
  "calculateSimilarityScores
     [(example_doc ''zero'' 0)\<lparr>vector := Some [Fin 0, Fin 0], vectorMag := Some (Fin 0)\<rparr>,
      example_doc ''hello'' 1] [Fin 3, Fin 4] (Fin 5) =
   Inr [((example_doc ''zero'' 0)\<lparr>vector := Some [Fin 0, Fin 0], vectorMag := Some (Fin 0)\<rparr>, NaN),
        (example_doc ''hello'' 1, Fin 1)]"
  by (simp add: example_doc_def dotProduct_def index_num_def vectorMag_num_def
      getCosineSimilarityScore_def normalizeScore_def inf_of_sgn_def example_rounding)

text \<open>
  Claim C8 as stated fails when a score is \<open>NaN\<close>. A document with the zero vector has
  magnitude 0 and the score 0/0; the comparator gives \<open>NaN\<close> for every pair that holds
  it, and the search returns it before the document of score 1.
\<close>

theorem similaritySearch_NaN_counterexample:
  "(case similaritySearch example_helpers
           (example_store
              [(example_doc ''zero'' 0)\<lparr>vector := Some [Fin 0, Fin 0], vectorMag := Some (Fin 0)\<rparr>,
               example_doc ''hello'' 1] True)
           \<lparr>query = ''hello'', k = None, filterOptions = (), includeValues = False\<rparr> of
      Some (s', Inr (similarItems, q)) \<Rightarrow>
        map doc_text similarItems = [''zero'', ''hello'']
        \<and> map score similarItems = [NaN, Fin 1]
        \<and> \<not> sorted_wrt num_ge (map score similarItems)
    | _ \<Rightarrow> False)"
proof -
  let ?z = "(example_doc ''zero'' 0)\<lparr>vector := Some [Fin 0, Fin 0], vectorMag := Some (Fin 0)\<rparr>"
  let ?s = "example_store [?z, example_doc ''hello'' 1] True"
  let ?p = "\<lparr>query = ''hello'', k = None, filterOptions = (), includeValues = False\<rparr>"
  let ?results = "updateHitCounters (map spread_score [(?z, NaN), (example_doc ''hello'' 1, Fin 1)])"
  let ?s1 = "?s\<lparr>embedLog := embedLog ?s @ [[query ?p]]\<rparr>"
  have "similaritySearch example_helpers ?s ?p =
     Some (saveToIndexDbStorage ?s1,
           Inr (if includeValues ?p then ?results else map deleteValues ?results,
                ([Fin 3, Fin 4], query ?p)))"
  proof (rule similaritySearch_eval)
    show "embedTextsFn ?s [query ?p] = Inr ([Fin 3, Fin 4] # [])"
      by (simp add: example_store_def example_embed_def)
    show "calculateSimilarityScores
           (filterDocuments example_helpers (documents ?s) (filterOptions ?p)) [Fin 3, Fin 4]
           (calculateMagnitude [Fin 3, Fin 4]) = Inr [(?z, NaN), (example_doc ''hello'' 1, Fin 1)]"
    proof -
      have "filterDocuments example_helpers (documents ?s) (filterOptions ?p)
              = [?z, example_doc ''hello'' 1]"
        by (simp add: example_store_def example_helpers_def)
      moreover have "calculateMagnitude [Fin 3, Fin 4] = Fin 5"
        by (simp add: calculateMagnitude_def example_magnitude)
      ultimately show ?thesis by (simp only: example_scores_zero)
    qed
    show "updateHitCounters (map spread_score
           (slice0 (case k ?p of None \<Rightarrow> 4 | Some n \<Rightarrow> n)
              (array_sort (\<lambda>a b. num_gt (compareScore a b) (Fin 0))
                 [(?z, NaN), (example_doc ''hello'' 1, Fin 1)]))) = ?results"
      by (simp add: array_sort_def slice0_def compareScore_def num_sub_def)
    show "?results \<noteq> []" by (simp add: updateHitCounters_def)
    show "removeDocsLRU example_helpers ?s1 = Some ?s1"
      by (rule removeDocsLRU_training) (simp add: example_store_def)
  qed
  then show ?thesis
    by (simp add: updateHitCounters_def spread_score_def deleteValues_def example_doc_def
        num_ge_def)
qed

lemma example_scores_two:
  "calculateSimilarityScores
     [(example_doc ''near'' 0)\<lparr>vector := Some [Fin 4, Fin 3]\<rparr>, example_doc ''hello'' 1]
     [Fin 3, Fin 4] (Fin 5) =
   Inr [((example_doc ''near'' 0)\<lparr>vector := Some [Fin 4, Fin 3]\<rparr>,
         Fin (2206763817411543 / 2 ^ 51)),
        (example_doc ''hello'' 1, Fin 1)]"
  by (simp add: example_doc_def dotProduct_def index_num_def vectorMag_num_def
      getCosineSimilarityScore_def normalizeScore_def example_rounding example_rounding_near)

theorem similaritySearch_sorted_stable_witness:
  "(case similaritySearch example_helpers
           (example_store
              [(example_doc ''near'' 0)\<lparr>vector := Some [Fin 4, Fin 3]\<rparr>,
               example_doc ''hello'' 1] True)
           \<lparr>query = ''hello'', k = None, filterOptions = (), includeValues = False\<rparr> of
      Some (s', Inr (similarItems, q)) \<Rightarrow>
        map doc_text similarItems = [''hello'', ''near'']
        \<and> map score similarItems = [Fin 1, Fin (2206763817411543 / 2 ^ 51)]
        \<and> sorted_wrt num_ge (map score similarItems)
    | _ \<Rightarrow> False)"
proof -
  let ?n = "(example_doc ''near'' 0)\<lparr>vector := Some [Fin 4, Fin 3]\<rparr>"
  let ?s = "example_store [?n, example_doc ''hello'' 1] True"
  let ?p = "\<lparr>query = ''hello'', k = None, filterOptions = (), includeValues = False\<rparr>"
  let ?pairs = "[(?n, Fin (2206763817411543 / 2 ^ 51)), (example_doc ''hello'' 1, Fin 1)]"
  let ?results = "updateHitCounters (map spread_score
                    [(example_doc ''hello'' 1, Fin 1), (?n, Fin (2206763817411543 / 2 ^ 51))])"
  let ?items = "if includeValues ?p then ?results else map deleteValues ?results"
  let ?s1 = "?s\<lparr>embedLog := embedLog ?s @ [[query ?p]]\<rparr>"
  have sc: "calculateSimilarityScores
           (filterDocuments example_helpers (documents ?s) (filterOptions ?p)) [Fin 3, Fin 4]
           (calculateMagnitude [Fin 3, Fin 4]) = Inr ?pairs"
  proof -
    have "filterDocuments example_helpers (documents ?s) (filterOptions ?p)
            = [?n, example_doc ''hello'' 1]"
      by (simp add: example_store_def example_helpers_def)
    moreover have "calculateMagnitude [Fin 3, Fin 4] = Fin 5"
      by (simp add: calculateMagnitude_def example_magnitude)
    ultimately show ?thesis by (simp only: example_scores_two)
  qed
  have ev: "similaritySearch example_helpers ?s ?p =
     Some (saveToIndexDbStorage ?s1, Inr (?items, ([Fin 3, Fin 4], query ?p)))"
  proof (rule similaritySearch_eval [OF _ sc])
    show "embedTextsFn ?s [query ?p] = Inr ([Fin 3, Fin 4] # [])"
      by (simp add: example_store_def example_embed_def)
    show "updateHitCounters (map spread_score
           (slice0 (case k ?p of None \<Rightarrow> 4 | Some n \<Rightarrow> n)
              (array_sort (\<lambda>a b. num_gt (compareScore a b) (Fin 0)) ?pairs))) = ?results"
      by (simp add: array_sort_def slice0_def compareScore_def num_sub_def example_rounding_near)
    show "?results \<noteq> []" by (simp add: updateHitCounters_def)
    show "removeDocsLRU example_helpers ?s1 = Some ?s1"
      by (rule removeDocsLRU_training) (simp add: example_store_def)
  qed
  have "\<forall>p \<in> set ?pairs. snd p \<noteq> NaN" by simp
  from similaritySearch_sorted_stable [OF ev sc this]
  have "sorted_wrt num_ge (map score ?items)" by (rule conjunct1)
  then show ?thesis
    using ev
    by (simp add: updateHitCounters_def spread_score_def deleteValues_def example_doc_def)
qed

subsection \<open>The cached magnitude\<close>

text \<open>When nothing rounds, the magnitude that the program computes is the L2 norm.\<close>

lemma foldl_exact_squares:
  "exact_squares acc xs \<Longrightarrow> 0 \<le> acc \<Longrightarrow>
   num_sqrt (foldl (\<lambda>sum val. num_add sum (num_mul val val)) (Fin acc) (map Fin xs))
     = Fin (sqrt (acc + (\<Sum>x\<leftarrow>xs. x\<^sup>2)))"
proof (induction xs arbitrary: acc)
  case Nil
  then show ?case by simp
next
  case (Cons x xs)
  have "exact_squares (acc + x * x) xs" using Cons.prems(1) by simp
  moreover have "0 \<le> acc + x * x" using Cons.prems(2) by simp
  ultimately have "num_sqrt (foldl (\<lambda>sum val. num_add sum (num_mul val val))
        (Fin (acc + x * x)) (map Fin xs)) = Fin (sqrt (acc + x * x + (\<Sum>x\<leftarrow>xs. x\<^sup>2)))"
    by (rule Cons.IH)
  then show ?case using Cons.prems(1) by (simp add: power2_eq_square add.assoc)
qed

lemma calculateMagnitude_exact:
  "exact_squares 0 xs \<Longrightarrow> calculateMagnitude (map Fin xs) = Fin (l2_norm xs)"
  using foldl_exact_squares [of 0 xs] by (simp add: calculateMagnitude_def sum_squares_def l2_norm_def)

lemma assignVectors_cached:
  "assignVectors vs i ds = Inr new \<Longrightarrow> \<forall>doc \<in> set new. norm_cached doc"
proof (induction ds arbitrary: i new)
  case Nil
  then show ?case by simp
next
  case (Cons d ds)
  let ?d1 = "d\<lparr>vector := (if i < length vs then Some (vs ! i) else None)\<rparr>"
  from Cons.prems obtain m rest where m: "calcVectorMagnitude ?d1 = Inr m"
    and r: "assignVectors vs (i + 1) ds = Inr rest" and n: "new = ?d1\<lparr>vectorMag := Some m\<rparr> # rest"
    by (auto simp: Let_def split: sum.splits)
  have "norm_cached (?d1\<lparr>vectorMag := Some m\<rparr>)"
    using m by (auto simp: norm_cached_def calcVectorMagnitude_def calculateMagnitude_def
        split: if_splits option.splits)
  then show ?case using Cons.IH [OF r] n by simp
qed

lemma set_tl_subset: "set (tl ds) \<subseteq> set ds"
  by (cases ds) auto

lemma shiftLoop_subset:
  assumes "shiftLoop sizeInMB maxSize ds = Some r"
  shows "set r \<subseteq> set ds"
proof (rule shiftLoop.raw_induct [where P = "\<lambda>sz mx ds r. set r \<subseteq> set ds", OF _ assms])
  fix f :: "('a list \<Rightarrow> real) \<Rightarrow> real \<Rightarrow> 'a list \<Rightarrow> 'a list option"
    and sz mx ds r
  assume IH: "\<And>sz mx ds r. f sz mx ds = Some r \<Longrightarrow> set r \<subseteq> set ds"
    and body: "(if sz ds > mx then f sz mx (tl ds) else Some ds) = Some r"
  show "set r \<subseteq> set ds"
  proof (cases "sz ds > mx")
    case True
    then have "f sz mx (tl ds) = Some r" using body by simp
    then have "set r \<subseteq> set (tl ds)" by (rule IH)
    then show ?thesis using set_tl_subset by fastforce
  next
    case False
    then show ?thesis using body by simp
  qed
qed

lemma removeDocsLRU_subset:
  assumes "removeDocsLRU H s = Some s'"
  shows "set (documents s') \<subseteq> set (documents s) \<and> idb s' = idb s"
proof (cases "trainingMode s \<or> \<not> getObjectSizeInMB H (documents s) > maxSizeInMB s")
  case True
  then have "s' = s" using assms by (auto simp: removeDocsLRU_def split: if_splits)
  then show ?thesis by simp
next
  case False
  then obtain ds where ds:
    "shiftLoop (getObjectSizeInMB H) (maxSizeInMB s)
       (array_sort (\<lambda>a b. compareLRU a b > 0) (documents s)) = Some ds"
    "s' = s\<lparr>documents := ds\<rparr>"
    using assms by (auto simp: removeDocsLRU_def split: option.splits if_splits)
  from shiftLoop_subset [OF ds(1)] have "set ds \<subseteq> set (documents s)"
    by (simp add: set_array_sort)
  then show ?thesis using ds(2) by simp
qed

lemma saveToIndexDbStorage_docs:
  "documents (saveToIndexDbStorage s) = documents s"
  "set (idb (saveToIndexDbStorage s)) \<subseteq> set (documents s) \<union> set (idb s)"
  by (auto simp: saveToIndexDbStorage_def)

lemma addDocuments_new_cached:
  assumes "addDocuments H s docs = Some (s', Inr new)"
  shows "\<forall>doc \<in> set new. norm_cached doc"
proof (cases "new = []")
  case True
  then show ?thesis by simp
next
  case False
  from addDocuments_inserted [OF assms False] obtain vs where
    "assignVectors vs 0 (filter (isNewDocument s (map doc_text (idb s))) docs) = Inr new"
    by blast
  then show ?thesis by (rule assignVectors_cached)
qed

lemma all_cached_save: "all_cached s \<Longrightarrow> all_cached (saveToIndexDbStorage s)"
  by (simp add: all_cached_def saveToIndexDbStorage_def)

lemma all_cached_removeDocsLRU:
  "all_cached s \<Longrightarrow> removeDocsLRU H s = Some s' \<Longrightarrow> all_cached s'"
  using removeDocsLRU_subset [of H s s']
  by (auto simp: all_cached_def list_all_iff)

lemma all_cached_embedLog [simp]: "all_cached (s\<lparr>embedLog := l\<rparr>) = all_cached s"
  by (simp add: all_cached_def)

lemma all_cached_append:
  "all_cached s \<Longrightarrow> \<forall>doc \<in> set new. norm_cached doc \<Longrightarrow>
   all_cached (s\<lparr>documents := documents s @ new\<rparr>)"
  by (auto simp: all_cached_def list_all_iff)

lemma addDocuments_cases:
  assumes "addDocuments H s docs = Some (s', r)"
  shows "s' = s
     \<or> (\<exists>l. s' = s\<lparr>embedLog := l\<rparr>)
     \<or> (\<exists>new l s2. (\<forall>doc \<in> set new. norm_cached doc)
           \<and> removeDocsLRU H (s\<lparr>embedLog := l, documents := documents s @ new\<rparr>) = Some s2
           \<and> s' = saveToIndexDbStorage s2)"
proof (cases "db_open s \<and> filter (isNewDocument s (map doc_text (idb s))) docs \<noteq> []")
  case False
  then have "s' = s" using assms by (auto simp: addDocuments_def Let_def split: if_splits)
  then show ?thesis by simp
next
  case True
  let ?new0 = "filter (isNewDocument s (map doc_text (idb s))) docs"
  let ?s1 = "s\<lparr>embedLog := embedLog s @ [map doc_text ?new0]\<rparr>"
  show ?thesis
  proof (cases "embedTextsFn s (map doc_text ?new0)")
    case (Inl e)
    then have "s' = ?s1" using assms True
      by (simp add: addDocuments_def Let_def callEmbed_def)
    then show ?thesis by blast
  next
    case (Inr vs)
    show ?thesis
    proof (cases "assignVectors vs 0 ?new0")
      case (Inl e)
      then have "s' = ?s1" using assms True Inr
        by (simp add: addDocuments_def Let_def callEmbed_def)
      then show ?thesis by blast
    next
      case new: (Inr new)
      then obtain s2 where s2:
        "removeDocsLRU H (s\<lparr>embedLog := embedLog s @ [map doc_text ?new0],
                              documents := documents s @ new\<rparr>) = Some s2"
        "s' = saveToIndexDbStorage s2"
        using assms True Inr
        by (auto simp: addDocuments_def Let_def callEmbed_def split: option.splits)
      have c: "\<forall>doc \<in> set new. norm_cached doc"
        using new by (rule assignVectors_cached)
      have "\<exists>new l s2. (\<forall>doc \<in> set new. norm_cached doc)
           \<and> removeDocsLRU H (s\<lparr>embedLog := l, documents := documents s @ new\<rparr>) = Some s2
           \<and> s' = saveToIndexDbStorage s2"
        using c s2 by (intro exI conjI)
      then show ?thesis by simp
    qed
  qed
qed

lemma addDocuments_cached:
  assumes "all_cached s" and "addDocuments H s docs = Some (s', r)"
  shows "all_cached s'"
proof -
  from addDocuments_cases [OF assms(2)]
  consider "s' = s" | l where "s' = s\<lparr>embedLog := l\<rparr>"
    | new l s2 where "\<forall>doc \<in> set new. norm_cached doc"
        "removeDocsLRU H (s\<lparr>embedLog := l, documents := documents s @ new\<rparr>) = Some s2"
        "s' = saveToIndexDbStorage s2"
    by blast
  then show ?thesis
  proof cases
    case 1
    then show ?thesis using assms(1) by simp
  next
    case 2
    then show ?thesis using assms(1) by simp
  next
    case 3
    have "all_cached (s\<lparr>embedLog := l, documents := documents s @ new\<rparr>)"
      using all_cached_append [OF assms(1) 3(1)] by (simp add: all_cached_def)
    then have "all_cached s2" using 3(2) by (rule all_cached_removeDocsLRU)
    then show ?thesis using 3(3) by (simp add: all_cached_save)
  qed
qed

lemma similaritySearch_cached:
  assumes "all_cached s" and "similaritySearch H s params = Some (s', r)"
  shows "all_cached s'"
proof -
  have "s' = s\<lparr>embedLog := embedLog s @ [[query params]]\<rparr>
        \<or> (\<exists>s2. removeDocsLRU H (s\<lparr>embedLog := embedLog s @ [[query params]]\<rparr>) = Some s2
               \<and> s' = saveToIndexDbStorage s2)"
    using assms(2)
    by (auto simp: similaritySearch_def embedText_def callEmbed_def Let_def
        split: sum.splits option.splits list.splits if_splits)
  then show ?thesis
  proof
    assume "s' = s\<lparr>embedLog := embedLog s @ [[query params]]\<rparr>"
    then show ?thesis using assms(1) by simp
  next
    assume "\<exists>s2. removeDocsLRU H (s\<lparr>embedLog := embedLog s @ [[query params]]\<rparr>) = Some s2
               \<and> s' = saveToIndexDbStorage s2"
    then obtain s2 where s2:
      "removeDocsLRU H (s\<lparr>embedLog := embedLog s @ [[query params]]\<rparr>) = Some s2"
      "s' = saveToIndexDbStorage s2" by blast
    have "all_cached (s\<lparr>embedLog := embedLog s @ [[query params]]\<rparr>)"
      using assms(1) by simp
    then have "all_cached s2" using s2(1) by (rule all_cached_removeDocsLRU)
    then show ?thesis using s2(2) by (simp add: all_cached_save)
  qed
qed

lemma perform_cached:
  assumes "all_cached s" and "perform H s c = Some s'"
  shows "all_cached s'"
proof (cases c)
  case (AddText tx md now)
  then obtain r where "addDocuments H s [\<lparr>hits = None, metadata = md, doc_text = tx,
      timestamp = now, vector = Some [], vectorMag = Some (Fin 0)\<rparr>] = Some (s', r)"
    using assms(2) by (auto simp: addText_def split: option.splits prod.splits sum.splits)
  then show ?thesis using assms(1) by (rule addDocuments_cached [rotated])
next
  case (AddTexts texts mds now)
  show ?thesis
  proof (cases "length texts = length mds")
    case True
    then obtain r where "addDocuments H s (map (\<lambda>(txt, index).
                      \<lparr>hits = None, metadata = mds ! index, doc_text = txt,
                       timestamp = now index, vector = Some [], vectorMag = Some (Fin 0)\<rparr>)
                    (zip texts [0..<length texts])) = Some (s', r)"
      using assms(2) AddTexts by (auto simp: addTexts_def)
    then show ?thesis using assms(1) by (rule addDocuments_cached [rotated])
  next
    case False
    then have "s' = s" using assms(2) AddTexts by (auto simp: addTexts_def)
    then show ?thesis using assms(1) by simp
  qed
next
  case (SimilaritySearch p)
  then obtain r where "similaritySearch H s p = Some (s', r)"
    using assms(2) by auto
  then show ?thesis using assms(1) by (rule similaritySearch_cached [rotated])
next
  case (DeleteDocumentsByMetadata v)
  have "all_cached (s\<lparr>documents :=
            filter (\<lambda>doc. v \<notin> set (metadataValues H (metadata doc))) (documents s)\<rparr>)"
    using assms(1) by (auto simp: all_cached_def list_all_iff)
  then have "all_cached (deleteDocumentsByMetadata H s v)"
    unfolding deleteDocumentsByMetadata_def by (rule all_cached_save)
  then show ?thesis using assms(2) DeleteDocumentsByMetadata by simp
next
  case StartTrainingMode
  then show ?thesis using assms by (auto simp: startTrainingMode_def all_cached_def)
next
  case EndTrainingMode
  then show ?thesis using assms by (auto simp: endTrainingMode_def all_cached_def)
qed

lemma run_cached:
  "all_cached s \<Longrightarrow> run H s ops = Some s' \<Longrightarrow> all_cached s'"
proof (induction ops arbitrary: s)
  case Nil
  then show ?case by simp
next
  case (Cons c ops)
  then obtain s1 where s1: "perform H s c = Some s1" "run H s1 ops = Some s'"
    by (auto split: option.splits)
  have "all_cached s1" using Cons.prems(1) s1(1) by (rule perform_cached)
  then show ?case using s1(2) by (rule Cons.IH)
qed

lemma new_VectorStorage_cached:
  assumes "list_all norm_cached backend" and "new_VectorStorage H options backend = Some s0"
  shows "all_cached s0"
  using assms
  by (auto simp: new_VectorStorage_def Let_def loadFromIndexDbStorage_def removeDocsLRU_def
      all_cached_def split: if_splits)

text \<open>
  Claim C10, amended. Every document that \<open>addDocuments\<close> returns as inserted has a
  vector, and its \<open>vectorMag\<close> is the magnitude that the program computes for that
  vector: the squares summed from 0 in the order of the components and the square root
  of the sum, every operation rounded to binary64. That magnitude is the L2 norm, the
  square root of the sum of the squares, when none of these operations rounds. And for
  a store constructed over a backend whose records have a vector and the magnitude
  computed for it (the empty backend, or one that this class wrote), every document in
  memory has them after any sequence of calls, and so has every record of the backend.
\<close>

theorem vectorMag_is_norm:
  "(\<forall>s' new. addDocuments H s docs = Some (s', Inr new) \<longrightarrow>
      (\<forall>doc \<in> set new. \<exists>v. vector doc = Some v
          \<and> vectorMag doc = Some (calculateMagnitude v)))
   \<and> (\<forall>xs. exact_squares 0 xs \<longrightarrow> calculateMagnitude (map Fin xs) = Fin (l2_norm xs))
   \<and> (\<forall>s0 ops s'. list_all norm_cached backend
         \<and> new_VectorStorage H options backend = Some s0 \<and> run H s0 ops = Some s' \<longrightarrow>
           (\<forall>doc \<in> set (documents s'). \<exists>v. vector doc = Some v
               \<and> vectorMag doc = Some (calculateMagnitude v))
           \<and> list_all norm_cached (idb s'))"
proof (intro conjI allI impI)
  fix s' new
  assume a: "addDocuments H s docs = Some (s', Inr new)"
  show "\<forall>doc \<in> set new. \<exists>v. vector doc = Some v
          \<and> vectorMag doc = Some (calculateMagnitude v)"
  proof
    fix doc assume "doc \<in> set new"
    then have "norm_cached doc" using addDocuments_new_cached [OF a] by blast
    then show "\<exists>v. vector doc = Some v \<and> vectorMag doc = Some (calculateMagnitude v)"
      by (auto simp: norm_cached_def split: option.splits)
  qed
next
  fix xs assume "exact_squares 0 xs"
  then show "calculateMagnitude (map Fin xs) = Fin (l2_norm xs)"
    by (rule calculateMagnitude_exact)
next
  fix s0 ops s'
  assume a: "list_all norm_cached backend
         \<and> new_VectorStorage H options backend = Some s0 \<and> run H s0 ops = Some s'"
  then have "all_cached s0" using new_VectorStorage_cached by blast
  then have c: "all_cached s'" using a run_cached by blast
  then show "\<forall>doc \<in> set (documents s'). \<exists>v. vector doc = Some v
               \<and> vectorMag doc = Some (calculateMagnitude v)"
    by (auto simp: all_cached_def list_all_iff norm_cached_def split: option.splits)
  show "list_all norm_cached (idb s')" using c by (simp add: all_cached_def)
qed

lemma example_insert_two:
  "addDocuments example_helpers (example_store [] True)
     [example_doc ''a'' 0, example_doc ''b'' 1] =
   Some (saveToIndexDbStorage ((example_store [] True)
           \<lparr>embedLog := embedLog (example_store [] True)
                @ [map doc_text [example_doc ''a'' 0, example_doc ''b'' 1]],
            documents := documents (example_store [] True)
                @ [(example_doc ''a'' 0)\<lparr>vectorMag := Some (Fin 5)\<rparr>,
                   (example_doc ''b'' 1)\<lparr>vectorMag := Some (Fin 5)\<rparr>]\<rparr>),
         Inr [(example_doc ''a'' 0)\<lparr>vectorMag := Some (Fin 5)\<rparr>,
              (example_doc ''b'' 1)\<lparr>vectorMag := Some (Fin 5)\<rparr>])"
proof (rule addDocuments_eval [OF _ example_filter _ example_embed_two example_assign])
  show "db_open (example_store [] True)" by (simp add: example_store_def)
  show "[example_doc ''a'' 0, example_doc ''b'' 1] \<noteq> []" by simp
  show "removeDocsLRU example_helpers ((example_store [] True)
           \<lparr>embedLog := embedLog (example_store [] True)
                @ [map doc_text [example_doc ''a'' 0, example_doc ''b'' 1]],
            documents := documents (example_store [] True)
                @ [(example_doc ''a'' 0)\<lparr>vectorMag := Some (Fin 5)\<rparr>,
                   (example_doc ''b'' 1)\<lparr>vectorMag := Some (Fin 5)\<rparr>]\<rparr>)
        = Some ((example_store [] True)
           \<lparr>embedLog := embedLog (example_store [] True)
                @ [map doc_text [example_doc ''a'' 0, example_doc ''b'' 1]],
            documents := documents (example_store [] True)
                @ [(example_doc ''a'' 0)\<lparr>vectorMag := Some (Fin 5)\<rparr>,
                   (example_doc ''b'' 1)\<lparr>vectorMag := Some (Fin 5)\<rparr>]\<rparr>)"
    by (rule removeDocsLRU_training) (simp add: example_store_def)
qed

lemma example_doc_cached: "norm_cached (example_doc t n)"
  by (simp add: norm_cached_def example_doc_def calculateMagnitude_def example_magnitude)

lemma example_exact: "exact_squares 0 [3, 4]"
  by (simp add: example_rounding sqrt_25)

lemma example_norm: "l2_norm [3, 4] = 5"
  by (simp add: l2_norm_def sqrt_25)

theorem vectorMag_is_norm_witness:
  "list_all norm_cached [example_doc ''hello'' 1]
   \<and> (\<exists>s0 s'. new_VectorStorage example_helpers example_options [example_doc ''hello'' 1]
                 = Some s0
         \<and> run example_helpers s0 [DeleteDocumentsByMetadata ''x'', EndTrainingMode] = Some s'
         \<and> documents s' = [example_doc ''hello'' 1]
         \<and> list_all (\<lambda>doc. vectorMag doc = Some (calculateMagnitude [Fin 3, Fin 4]))
               (documents s'))
   \<and> (case addDocuments example_helpers (example_store [] True)
              [example_doc ''a'' 0, example_doc ''b'' 1] of
         Some (s', Inr new) \<Rightarrow>
           map vector new = [Some [Fin 3, Fin 4], Some [Fin 3, Fin 4]]
           \<and> map vectorMag new = [Some (Fin 5), Some (Fin 5)]
       | _ \<Rightarrow> False)
   \<and> exact_squares 0 [3, 4]
   \<and> calculateMagnitude [Fin 3, Fin 4] = Fin 5"
proof -
  let ?b = "[example_doc ''hello'' 1]"
  let ?ops = "[DeleteDocumentsByMetadata ''x'', EndTrainingMode] :: (string, unit) operation list"
  let ?new = "[(example_doc ''a'' 0)\<lparr>vectorMag := Some (Fin 5)\<rparr>,
               (example_doc ''b'' 1)\<lparr>vectorMag := Some (Fin 5)\<rparr>]"
  note inst = vectorMag_is_norm [of example_helpers "example_store [] True"
      "[example_doc ''a'' 0, example_doc ''b'' 1]" ?b example_options]
  have b: "list_all norm_cached ?b" by (simp add: example_doc_cached)
  obtain s0 where s0: "new_VectorStorage example_helpers example_options ?b = Some s0"
    "documents s0 = ?b"
    using new_VectorStorage_training [of example_helpers example_options ?b]
    by (auto simp: example_options_def)
  have r: "run example_helpers s0 ?ops
      = Some (endTrainingMode (deleteDocumentsByMetadata example_helpers s0 ''x''))"
    by simp
  let ?s' = "endTrainingMode (deleteDocumentsByMetadata example_helpers s0 ''x'')"
  have d: "documents ?s' = ?b"
    using s0(2)
    by (simp add: endTrainingMode_def deleteDocumentsByMetadata_def saveToIndexDbStorage_def
        example_helpers_def example_doc_def)
  from inst b s0(1) r
  have "\<forall>doc \<in> set (documents ?s'). \<exists>v. vector doc = Some v
      \<and> vectorMag doc = Some (calculateMagnitude v)"
    by blast
  then have "list_all (\<lambda>doc. vectorMag doc = Some (calculateMagnitude [Fin 3, Fin 4]))
      (documents ?s')"
    unfolding d by (simp add: example_doc_def)
  then have one: "\<exists>s0 s'. new_VectorStorage example_helpers example_options ?b = Some s0
         \<and> run example_helpers s0 ?ops = Some s'
         \<and> documents s' = ?b
         \<and> list_all (\<lambda>doc. vectorMag doc = Some (calculateMagnitude [Fin 3, Fin 4]))
               (documents s')"
    using s0(1) r d by blast
  have two: "(case addDocuments example_helpers (example_store [] True)
              [example_doc ''a'' 0, example_doc ''b'' 1] of
         Some (s', Inr new) \<Rightarrow>
           map vector new = [Some [Fin 3, Fin 4], Some [Fin 3, Fin 4]]
           \<and> map vectorMag new = [Some (Fin 5), Some (Fin 5)]
       | _ \<Rightarrow> False)"
    unfolding example_insert_two by (simp add: example_doc_def)
  from inst example_exact
  have "calculateMagnitude (map Fin [3, 4]) = Fin (l2_norm [3, 4])" by blast
  then have three: "calculateMagnitude [Fin 3, Fin 4] = Fin 5"
    by (simp add: example_norm)
  from b one two example_exact three show ?thesis by blast
qed

lemma example_overflow: "calculateMagnitude [Fin (2 ^ 512), Fin (2 ^ 512)] = PosInf"
proof -
  have "(2::real) ^ 1024 \<le> 2 ^ 512 * 2 ^ 512" by simp
  then have "round_double (2 ^ 512 * 2 ^ 512) = PosInf" by (rule round_double_overflow)
  then have m: "num_mul (Fin (2 ^ 512)) (Fin (2 ^ 512)) = PosInf" by (simp only: num_mul.simps)
  show ?thesis
    by (simp only: calculateMagnitude_def sum_squares_def foldl.simps m num_add.simps
        num_sqrt.simps)
qed

lemma assignVectors_one:
  "assignVectors [v] 0 [doc] =
     Inr [doc\<lparr>vector := Some v, vectorMag := Some (calculateMagnitude v)\<rparr>]"
  by (simp add: calcVectorMagnitude_def calculateMagnitude_def Let_def)

lemma l2_norm_pair: "0 < a \<Longrightarrow> l2_norm [a, a] < 2 * a"
proof -
  assume a: "0 < a"
  then have "0 < a * a" by simp
  then have "a\<^sup>2 + a\<^sup>2 < (2 * a)\<^sup>2" by (simp add: power2_eq_square)
  then have "sqrt (a\<^sup>2 + a\<^sup>2) < 2 * a" using a by (intro real_less_lsqrt) simp_all
  then show ?thesis by (simp add: l2_norm_def)
qed

lemma example_norm_large: "l2_norm [2 ^ 512, 2 ^ 512] < 2 ^ 513"
proof -
  define a :: real where "a = 2 ^ 512"
  have "0 < a" by (simp add: a_def)
  then have h: "l2_norm [a, a] < 2 * a" by (rule l2_norm_pair)
  have e: "(2::real) ^ 513 = 2 * a" by (simp add: a_def)
  show ?thesis unfolding e a_def [symmetric] by (rule h)
qed

lemma example_underflow:
  "calculateMagnitude [Fin (1 / 2 ^ 600), Fin (1 / 2 ^ 600)] = Fin 0"
proof -
  have "power_int (2::real) (- 1200) \<le> power_int 2 (- 1076)"
    by (rule power_int_increasing) simp_all
  moreover have "power_int (2::real) (- 1076) < power_int 2 (- 1075)"
    by (rule power_int_strict_increasing) simp_all
  moreover have "(1 / 2 ^ 600 * (1 / 2 ^ 600) :: real) = power_int 2 (- 1200)"
    by (simp add: power_int_minus field_simps)
  ultimately have "\<bar>1 / 2 ^ 600 * (1 / 2 ^ 600) :: real\<bar> < power_int 2 (- 1075)"
    by simp
  then have "round_double (1 / 2 ^ 600 * (1 / 2 ^ 600)) = Fin 0"
    by (rule round_double_underflow)
  then have m: "num_mul (Fin (1 / 2 ^ 600)) (Fin (1 / 2 ^ 600)) = Fin 0"
    by (simp only: num_mul.simps)
  have z: "num_add (Fin 0) (Fin 0) = Fin 0" "num_sqrt (Fin 0) = Fin 0" by simp_all
  show ?thesis
    by (simp only: calculateMagnitude_def sum_squares_def foldl.simps m z)
qed

lemma example_norm_small: "0 < l2_norm [1 / 2 ^ 600, 1 / 2 ^ 600]"
proof -
  define a :: real where "a = 1 / 2 ^ 600"
  have "0 < a" by (simp add: a_def)
  then have "0 < a\<^sup>2 + a\<^sup>2" by simp
  then have "0 < l2_norm [a, a]" by (simp add: l2_norm_def)
  then show ?thesis by (simp only: a_def)
qed

text \<open>
  Claim C10 as stated fails. The arithmetic of the magnitude rounds, overflows and
  underflows. For the vector \<open>(2 ^ 512, 2 ^ 512)\<close>, whose L2 norm is below \<open>2 ^ 513\<close>,
  each square is \<open>2 ^ 1024\<close>, which is infinite in binary64, and the document is inserted
  with an infinite \<open>vectorMag\<close>. For the vector \<open>(2 ^ -600, 2 ^ -600)\<close>, whose L2 norm
  is not 0, each square is 0 in binary64 and so is the magnitude. And the constructor
  takes the records of the backend as they are: a record with the vector \<open>(3, 4)\<close> and
  the magnitude 7 is in memory after the load, with that magnitude.
\<close>

theorem vectorMag_not_norm_counterexample:
  "(case addDocuments example_helpers
           ((example_store [] True)\<lparr>embedTextsFn := example_embed_large\<rparr>)
           [example_doc ''a'' 0] of
      Some (s', Inr new) \<Rightarrow>
        map vector new = [Some [Fin (2 ^ 512), Fin (2 ^ 512)]]
        \<and> map vectorMag new = [Some PosInf]
        \<and> map vectorMag (documents s') = [Some PosInf]
    | _ \<Rightarrow> False)
   \<and> l2_norm [2 ^ 512, 2 ^ 512] < 2 ^ 513
   \<and> calculateMagnitude [Fin (1 / 2 ^ 600), Fin (1 / 2 ^ 600)] = Fin 0
   \<and> 0 < l2_norm [1 / 2 ^ 600, 1 / 2 ^ 600]
   \<and> (case new_VectorStorage example_helpers example_options
              [(example_doc ''hello'' 1)\<lparr>vectorMag := Some (Fin 7)\<rparr>] of
        Some s0 \<Rightarrow>
          map vector (documents s0) = [Some [Fin 3, Fin 4]]
          \<and> map vectorMag (documents s0) = [Some (Fin 7)]
          \<and> calculateMagnitude [Fin 3, Fin 4] = Fin 5
      | None \<Rightarrow> False)"
proof -
  let ?s = "(example_store [] True)\<lparr>embedTextsFn := example_embed_large\<rparr>"
  let ?v = "[Fin (2 ^ 512), Fin (2 ^ 512)]"
  let ?new = "[(example_doc ''a'' 0)\<lparr>vector := Some ?v, vectorMag := Some PosInf\<rparr>]"
  let ?s1 = "?s\<lparr>embedLog := embedLog ?s @ [map doc_text [example_doc ''a'' 0]],
               documents := documents ?s @ ?new\<rparr>"
  have "addDocuments example_helpers ?s [example_doc ''a'' 0]
      = Some (saveToIndexDbStorage ?s1, Inr ?new)"
  proof (rule addDocuments_eval)
    show "db_open ?s" by (simp add: example_store_def)
    show "filter (isNewDocument ?s (map doc_text (idb ?s))) [example_doc ''a'' 0]
        = [example_doc ''a'' 0]"
      by (simp add: isNewDocument_def example_store_def example_doc_def example_trim)
    show "[example_doc ''a'' 0] \<noteq> []" by simp
    show "embedTextsFn ?s (map doc_text [example_doc ''a'' 0]) = Inr [?v]"
      by (simp add: example_embed_large_def)
    show "assignVectors [?v] 0 [example_doc ''a'' 0] = Inr ?new"
      by (simp only: assignVectors_one example_overflow)
    show "removeDocsLRU example_helpers ?s1 = Some ?s1"
      by (rule removeDocsLRU_training) (simp add: example_store_def)
  qed
  then have one: "(case addDocuments example_helpers ?s [example_doc ''a'' 0] of
      Some (s', Inr new) \<Rightarrow>
        map vector new = [Some ?v]
        \<and> map vectorMag new = [Some PosInf]
        \<and> map vectorMag (documents s') = [Some PosInf]
    | _ \<Rightarrow> False)"
    by (simp add: saveToIndexDbStorage_def example_store_def)
  have two: "(case new_VectorStorage example_helpers example_options
              [(example_doc ''hello'' 1)\<lparr>vectorMag := Some (Fin 7)\<rparr>] of
        Some s0 \<Rightarrow>
          map vector (documents s0) = [Some [Fin 3, Fin 4]]
          \<and> map vectorMag (documents s0) = [Some (Fin 7)]
          \<and> calculateMagnitude [Fin 3, Fin 4] = Fin 5
      | None \<Rightarrow> False)"
    by (simp add: new_VectorStorage_def Let_def loadFromIndexDbStorage_def removeDocsLRU_def
        example_options_def example_doc_def calculateMagnitude_def example_magnitude)
  from one example_norm_large example_underflow example_norm_small two show ?thesis
    by (intro conjI)
qed

end
